theory Spec2Isabelle
  imports Complex_Main "HOL-Library.Word" "HOL-Library.Log_Nat" "HOL-Library.AList"
begin

unbundle bit_operations_syntax

section \<open>JavaScript values and errors\<close>

text \<open>
  The arguments of the public functions are JavaScript values. Every check the code makes
  on them is \<^verbatim>\<open>Number.isInteger\<close> followed by comparisons, so a value is classified
  as: a number whose value is a mathematical integer (with that value), a finite number
  with a fractional part (7.5), NaN, plus or minus Infinity, a value that is not a number
  at all (a string, a boolean, an object, null), or \<^verbatim>\<open>undefined\<close> (an absent
  argument, which a default parameter replaces).
\<close>

datatype jsval = JInteger int | JFractional | JNaN | JInfinity bool | JNonNumber | JUndefined

text \<open>\<^verbatim>\<open>Number.isInteger\<close>.\<close>

fun isInteger :: "jsval \<Rightarrow> bool" where
  "isInteger (JInteger n) = True"
| "isInteger v = False"

text \<open>The error classes of \<^verbatim>\<open>types/index.ts\<close> and \<^verbatim>\<open>crypto.ts\<close>, with their messages.\<close>

datatype error = ZapidValidationError string | CryptoGenerationError string

fun message :: "error \<Rightarrow> string" where
  "message (ZapidValidationError m) = m"
| "message (CryptoGenerationError m) = m"

fun isValidationError :: "error \<Rightarrow> bool" where
  "isValidationError (ZapidValidationError m) = True"
| "isValidationError (CryptoGenerationError m) = False"

fun isCryptoGenerationError :: "error \<Rightarrow> bool" where
  "isCryptoGenerationError (CryptoGenerationError m) = True"
| "isCryptoGenerationError (ZapidValidationError m) = False"

text \<open>Decimal printing of a number inside a template string.\<close>

definition digit :: "nat \<Rightarrow> char" where
  "digit d = ''0123456789'' ! (d mod 10)"

function dec :: "nat \<Rightarrow> string" where
  "dec n = (if n < 10 then [digit n] else dec (n div 10) @ [digit (n mod 10)])"
  by pat_completeness auto
termination
  by (relation "measure (\<lambda>n. n)") auto

definition show_int :: "int \<Rightarrow> string" where
  "show_int i = (if i < 0 then ''-'' @ dec (nat (- i)) else dec (nat i))"

section \<open>The secure random source (crypto.ts)\<close>

text \<open>
  The host platform is the environment of the program. \<open>platform\<close> says what the
  capability probe finds: a browser (\<^verbatim>\<open>window.crypto\<close>), Node (\<^verbatim>\<open>require('crypto')\<close>
  succeeds) or neither. \<open>tape\<close> is the infinite sequence of bytes the facility will
  deliver, \<open>used\<close> how many of them have been consumed, \<open>requests\<close> how many requests
  the facility has received, and \<open>faults k = Some m\<close> says that the facility throws an
  Error with message \<open>m\<close> at its \<open>k\<close>-th request.
\<close>

datatype platform = Browser | Node | NoCrypto

record source =
  platform :: platform
  tape :: "nat \<Rightarrow> 8 word"
  faults :: "nat \<Rightarrow> string option"
  used :: nat
  requests :: nat

fun isBrowser :: "platform \<Rightarrow> bool" where
  "isBrowser Browser = True"
| "isBrowser p = False"

fun getCrypto :: "platform \<Rightarrow> error + platform" where
  "getCrypto p =
     (if isBrowser p then Inr Browser
      else (case p of
              NoCrypto \<Rightarrow> Inl (CryptoGenerationError
                ''No secure crypto implementation available. Ensure you are in a supported environment.'')
            | q \<Rightarrow> Inr q))"

text \<open>
  One request to the platform facility (\<^verbatim>\<open>getRandomValues\<close> or \<^verbatim>\<open>randomBytes\<close>) for
  \<open>n\<close> bytes: it throws, or it delivers the next \<open>n\<close> bytes of the tape.
\<close>

definition facility :: "nat \<Rightarrow> source \<Rightarrow> (string + 8 word list) \<times> source" where
  "facility n s =
     (case faults s (requests s) of
        Some m \<Rightarrow> (Inl m, s\<lparr>requests := Suc (requests s)\<rparr>)
      | None \<Rightarrow> (Inr (map (\<lambda>i. tape s (used s + i)) [0..<n]),
                 s\<lparr>used := used s + n, requests := Suc (requests s)\<rparr>))"

text \<open>
  \<^verbatim>\<open>getRandomBytes\<close>: the argument check is outside the \<^verbatim>\<open>try\<close>; everything thrown
  inside it, the error of \<^verbatim>\<open>getCrypto\<close> included, is caught and wrapped.
\<close>

fun getRandomBytes :: "jsval \<Rightarrow> source \<Rightarrow> (error + 8 word list) \<times> source" where
  "getRandomBytes (JInteger len) s =
     (if len < 1 then
        (Inl (CryptoGenerationError ''Random bytes length must be a positive integer''), s)
      else
        (case getCrypto (platform s) of
           Inl e \<Rightarrow>
             (Inl (CryptoGenerationError (''Failed to generate random bytes: '' @ message e)), s)
         | Inr crypto \<Rightarrow>
             (case facility (nat len) s of
                (Inl m, s') \<Rightarrow>
                  (Inl (CryptoGenerationError (''Failed to generate random bytes: '' @ m)), s')
              | (Inr bytes, s') \<Rightarrow> (Inr bytes, s'))))"
| "getRandomBytes v s =
     (Inl (CryptoGenerationError ''Random bytes length must be a positive integer''), s)"

text \<open>
  \<^verbatim>\<open>Math.ceil(Math.log2(max))\<close> and \<^verbatim>\<open>Math.ceil(bitsNeeded / 8)\<close>, with the logarithm
  taken as the exact base-2 logarithm.
\<close>

definition bitsNeeded :: "int \<Rightarrow> nat" where
  "bitsNeeded maxv = nat \<lceil>log 2 (real_of_int maxv)\<rceil>"

definition bytesNeeded :: "int \<Rightarrow> nat" where
  "bytesNeeded maxv = nat \<lceil>real (bitsNeeded maxv) / 8\<rceil>"

text \<open>
  The bitwise operators of JavaScript work on 32-bit integers: \<^verbatim>\<open>x << n\<close> shifts the
  32-bit value of \<open>x\<close> by \<open>n mod 32\<close> and the result is read as a signed 32-bit integer.
  The subtraction in \<^verbatim>\<open>(1 << bitsNeeded) - 1\<close> is an ordinary subtraction of numbers, and
  \<^verbatim>\<open>num & mask\<close> converts the mask back to 32 bits.
\<close>

definition js_shl :: "32 word \<Rightarrow> nat \<Rightarrow> 32 word" where
  "js_shl x n = push_bit (n mod 32) x"

definition maskOf :: "int \<Rightarrow> int" where
  "maskOf maxv = sint (js_shl 1 (bitsNeeded maxv)) - 1"

text \<open>The inner loop \<^verbatim>\<open>num = (num << 8) | bytes[i]\<close>, started at 0.\<close>

definition pack :: "8 word list \<Rightarrow> 32 word" where
  "pack bytes = foldl (\<lambda>num b. js_shl num 8 OR ucast b) 0 bytes"

text \<open>\<^verbatim>\<open>num & mask\<close>, read as a number.\<close>

definition masked :: "8 word list \<Rightarrow> int \<Rightarrow> int" where
  "masked bytes msk = sint (pack bytes AND word_of_int msk)"

text \<open>
  The \<^verbatim>\<open>while (true)\<close> loop of \<^verbatim>\<open>getRandomInt\<close>. It has no bound, so it is a partial
  function: \<open>None\<close> is the run that never returns.
\<close>

partial_function (option) rejection_loop ::
  "int \<Rightarrow> nat \<Rightarrow> int \<Rightarrow> source \<Rightarrow> ((error + int) \<times> source) option" where
  "rejection_loop maxv bytesN msk s =
     (case getRandomBytes (JInteger (int bytesN)) s of
        (Inl e, s') \<Rightarrow> Some (Inl e, s')
      | (Inr bytes, s') \<Rightarrow>
          (let num = masked bytes msk
           in if num < maxv then Some (Inr num, s')
              else rejection_loop maxv bytesN msk s'))"

fun getRandomInt :: "jsval \<Rightarrow> source \<Rightarrow> ((error + int) \<times> source) option" where
  "getRandomInt (JInteger maxv) s =
     (if maxv < 1 then
        Some (Inl (CryptoGenerationError ''Maximum value must be a positive integer''), s)
      else if maxv = 1 then Some (Inr 0, s)
      else rejection_loop maxv (bytesNeeded maxv) (maskOf maxv) s)"
| "getRandomInt v s =
     Some (Inl (CryptoGenerationError ''Maximum value must be a positive integer''), s)"

section \<open>The generator (generator.ts)\<close>

definition DEFAULT_LENGTH :: int where "DEFAULT_LENGTH = 7"
definition MIN_LENGTH :: int where "MIN_LENGTH = 7"
definition MAX_LENGTH :: int where "MAX_LENGTH = 32"
definition CHARSET :: string where
  "CHARSET = ''abcdefghijklmnopqrstuvwxyzABCDEFGHIJKLMNOPQRSTUVWXYZ0123456789''"

datatype SafetyLevel = Safe | Moderate | HighRisk

record CollisionThresholds =
  safe :: real
  moderate :: real

definition COLLISION_THRESHOLDS :: CollisionThresholds where
  "COLLISION_THRESHOLDS = \<lparr>safe = 0.001, moderate = 0.1\<rparr>"

record ZapidResult =
  id' :: string
  safety :: SafetyLevel
  collisionProbability :: string
  recommendation :: string

text \<open>
  \<^verbatim>\<open>validateLength\<close> returns nothing in the source; here it returns the integer that
  passed the three checks, which is what the callers go on to use.
\<close>

fun validateLength :: "jsval \<Rightarrow> error + int" where
  "validateLength (JInteger len) =
     (if len < MIN_LENGTH then
        Inl (ZapidValidationError
          (''ID length must be at least '' @ show_int MIN_LENGTH @ '' characters''))
      else if len > MAX_LENGTH then
        Inl (ZapidValidationError
          (''ID length cannot exceed '' @ show_int MAX_LENGTH @ '' characters''))
      else Inr len)"
| "validateLength v = Inl (ZapidValidationError ''ID length must be an integer'')"

text \<open>
  The collision model. These functions are private to the module and are only reached
  with a validated length. The numbers are real numbers here (doubles in the source).
\<close>

definition calculateCollisionProbability :: "int \<Rightarrow> real \<Rightarrow> real" where
  "calculateCollisionProbability len numIds =
     (let space = real (length CHARSET) ^ nat len;
          exponent = (- numIds * (numIds - 1)) / (2 * space)
      in 1 - exp exponent)"

definition getSafetyLevel :: "real \<Rightarrow> SafetyLevel" where
  "getSafetyLevel probability =
     (if probability \<ge> moderate COLLISION_THRESHOLDS then HighRisk
      else if probability \<ge> safe COLLISION_THRESHOLDS then Moderate
      else Safe)"

text \<open>
  \<^verbatim>\<open>toExponential(2)\<close> of a positive whole number: one digit, two fractional digits
  rounded half up, and the decimal exponent.
\<close>

definition toExponential2 :: "nat \<Rightarrow> string" where
  "toExponential2 x =
     (if x = 0 then ''0.00e+0''
      else
        (let e = length (dec x) - 1;
             n = (200 * x + 10 ^ e) div (2 * 10 ^ e);
             e' = (if n \<ge> 1000 then e + 1 else e);
             n' = (if n \<ge> 1000 then n div 10 else n)
         in [digit (n' div 100)] @ ''.'' @ [digit (n' div 10), digit n'] @ ''e+'' @ dec e'))"

text \<open>
  \<^verbatim>\<open>toFixed(3)\<close>: the integer \<open>n\<close> with \<open>n / 1000\<close> closest to \<open>x\<close> (the larger one
  at a tie), printed with three fractional digits.
\<close>

definition toFixed3 :: "real \<Rightarrow> string" where
  "toFixed3 x =
     (let n = nat \<lfloor>\<bar>x\<bar> * 1000 + 1 / 2\<rfloor>
      in (if x < 0 then ''-'' else '''') @ dec (n div 1000) @ ''.'' @
         [digit (n div 100), digit (n div 10), digit n])"

fun SAFETY_RECOMMENDATIONS :: "SafetyLevel \<Rightarrow> nat \<Rightarrow> string" where
  "SAFETY_RECOMMENDATIONS Safe combinations =
     ''Safe for up to 100k IDs. Total possible combinations: '' @ toExponential2 combinations"
| "SAFETY_RECOMMENDATIONS Moderate combinations =
     ''Moderate collision risk. Consider increasing length for large-scale use.''"
| "SAFETY_RECOMMENDATIONS HighRisk combinations =
     ''High collision risk. Increase length or reduce number of IDs.''"

definition getRecommendation :: "int \<Rightarrow> SafetyLevel \<Rightarrow> string" where
  "getRecommendation len sl =
     (let combinations = length CHARSET ^ nat len
      in SAFETY_RECOMMENDATIONS sl combinations)"

text \<open>
  \<^verbatim>\<open>CONSTANTS.CHARSET[randomIndex]\<close>: a one-character string, or \<^verbatim>\<open>undefined\<close> outside
  the string, which \<^verbatim>\<open>+=\<close> appends as the text "undefined".
\<close>

definition charsetAt :: "int \<Rightarrow> string" where
  "charsetAt i =
     (if 0 \<le> i \<and> i < int (length CHARSET) then [CHARSET ! nat i] else ''undefined'')"

text \<open>
  The \<^verbatim>\<open>for\<close> loop of \<^verbatim>\<open>generate\<close>; the first argument counts the iterations that
  are left, \<open>length - i\<close>.
\<close>

fun generate_loop :: "nat \<Rightarrow> string \<Rightarrow> source \<Rightarrow> ((error + string) \<times> source) option" where
  "generate_loop 0 ident s = Some (Inr ident, s)"
| "generate_loop (Suc k) ident s =
     (case getRandomInt (JInteger (int (length CHARSET))) s of
        None \<Rightarrow> None
      | Some (Inl e, s') \<Rightarrow> Some (Inl e, s')
      | Some (Inr randomIndex, s') \<Rightarrow> generate_loop k (ident @ charsetAt randomIndex) s')"

text \<open>The default parameter \<^verbatim>\<open>length = CONSTANTS.DEFAULT_LENGTH\<close>.\<close>

fun defaulted :: "jsval \<Rightarrow> jsval" where
  "defaulted JUndefined = JInteger DEFAULT_LENGTH"
| "defaulted v = v"

definition generate :: "jsval \<Rightarrow> source \<Rightarrow> ((error + string) \<times> source) option" where
  "generate arg s =
     (case validateLength (defaulted arg) of
        Inl e \<Rightarrow> Some (Inl e, s)
      | Inr len \<Rightarrow> generate_loop (nat len) [] s)"

definition generateWithInfo ::
  "jsval \<Rightarrow> source \<Rightarrow> ((error + ZapidResult) \<times> source) option" where
  "generateWithInfo arg s =
     (case validateLength (defaulted arg) of
        Inl e \<Rightarrow> Some (Inl e, s)
      | Inr len \<Rightarrow>
          (case generate (JInteger len) s of
             None \<Rightarrow> None
           | Some (Inl e, s') \<Rightarrow> Some (Inl e, s')
           | Some (Inr ident, s') \<Rightarrow>
               (let probability = calculateCollisionProbability len 100000;
                    sl = getSafetyLevel probability
                in Some (Inr \<lparr>id' = ident, safety = sl,
                               collisionProbability = toFixed3 (probability * 100) @ ''%'',
                               recommendation = getRecommendation len sl\<rparr>, s'))))"

section \<open>The configuration object (generator.ts)\<close>

text \<open>
  The configuration object. \<^verbatim>\<open>CONSTANTS\<close> is an object of the module; \<^verbatim>\<open>getConfig\<close>
  returns \<^verbatim>\<open>Object.freeze({ ...CONSTANTS })\<close>, a reference to a new object. Whether a
  caller can change what later calls see depends on what that reference points to, so
  objects live in a store: a list of objects, addressed by position, with the module's
  \<^verbatim>\<open>CONSTANTS\<close> at address 0 (\<^verbatim>\<open>as const\<close> is a compile-time annotation: at run time
  that object is not frozen). Property values are numbers and strings, which are
  immutable values in JavaScript.
\<close>

datatype pval = PNum int | PStr string

record obj =
  props :: "(string \<times> pval) list"
  frozen :: bool

type_synonym heap = "obj list"

definition CONSTANTS :: obj where
  "CONSTANTS =
     \<lparr>props = [(''DEFAULT_LENGTH'', PNum DEFAULT_LENGTH), (''MIN_LENGTH'', PNum MIN_LENGTH),
               (''MAX_LENGTH'', PNum MAX_LENGTH), (''CHARSET'', PStr CHARSET)],
      frozen = False\<rparr>"

definition module_heap :: heap where
  "module_heap = [CONSTANTS]"

text \<open>\<^verbatim>\<open>getCharset\<close> reads \<^verbatim>\<open>CONSTANTS.CHARSET\<close> (\<open>None\<close> is \<^verbatim>\<open>undefined\<close>).\<close>

definition getCharset :: "heap \<Rightarrow> pval option" where
  "getCharset h = (case h of [] \<Rightarrow> None | c # rest \<Rightarrow> map_of (props c) ''CHARSET'')"

text \<open>
  \<^verbatim>\<open>getConfig\<close>: the spread copies the properties of \<^verbatim>\<open>CONSTANTS\<close> into a new object,
  \<^verbatim>\<open>Object.freeze\<close> freezes that object, and its address is returned. (The store of a
  loaded module always holds \<^verbatim>\<open>CONSTANTS\<close>; the empty store is there for totality.)
\<close>

definition getConfig :: "heap \<Rightarrow> nat \<times> heap" where
  "getConfig h =
     (case h of
        [] \<Rightarrow> (0, h)
      | c # rest \<Rightarrow> (length h, h @ [\<lparr>props = props c, frozen = True\<rparr>]))"

text \<open>
  What a caller can try on a reference it holds: an assignment \<^verbatim>\<open>o.k = v\<close>, a
  \<^verbatim>\<open>delete o.k\<close>, or \<^verbatim>\<open>Object.defineProperty(o, k, {value: v})\<close>. On a frozen object
  none of them changes anything: an assignment throws a TypeError in strict mode and is
  ignored otherwise, so does the deletion of a property the object has,
  and \<^verbatim>\<open>defineProperty\<close> throws a TypeError unless the property already has that
  value. On an object that is not frozen they take effect.
\<close>

datatype mutation = Assign string pval | Delete string | DefineProperty string pval

datatype js_exception = TypeError

fun apply_mutation :: "mutation \<Rightarrow> (string \<times> pval) list \<Rightarrow> (string \<times> pval) list" where
  "apply_mutation (Assign k v) ps = AList.update k v ps"
| "apply_mutation (Delete k) ps = AList.delete k ps"
| "apply_mutation (DefineProperty k v) ps = AList.update k v ps"

fun throws_on_frozen :: "bool \<Rightarrow> mutation \<Rightarrow> (string \<times> pval) list \<Rightarrow> bool" where
  "throws_on_frozen strict (Assign k v) ps = strict"
| "throws_on_frozen strict (Delete k) ps = (strict \<and> map_of ps k \<noteq> None)"
| "throws_on_frozen strict (DefineProperty k v) ps = (map_of ps k \<noteq> Some v)"

definition mutate :: "bool \<Rightarrow> nat \<Rightarrow> mutation \<Rightarrow> heap \<Rightarrow> js_exception option \<times> heap" where
  "mutate strict a m h =
     (if frozen (h ! a) then
        ((if throws_on_frozen strict m (props (h ! a)) then Some TypeError else None), h)
      else (None, h[a := (h ! a)\<lparr>props := apply_mutation m (props (h ! a))\<rparr>]))"

text \<open>
  A caller: any sequence of calls of \<^verbatim>\<open>getConfig\<close> and of mutation attempts (in strict
  mode or not) on one of the snapshots it has obtained so far. \<^verbatim>\<open>CONSTANTS\<close> is not
  exported, so the snapshots are the only references a caller holds.
\<close>

datatype client_op = CallGetConfig | Attempt bool nat mutation

fun client_step :: "heap \<times> nat list \<Rightarrow> client_op \<Rightarrow> heap \<times> nat list" where
  "client_step (h, refs) CallGetConfig = (case getConfig h of (a, h') \<Rightarrow> (h', refs @ [a]))"
| "client_step (h, refs) (Attempt strict i m) =
     (if i < length refs then (snd (mutate strict (refs ! i) m h), refs) else (h, refs))"

definition client_run :: "client_op list \<Rightarrow> heap \<times> nat list" where
  "client_run ops = foldl client_step (module_heap, []) ops"

section \<open>Vocabulary of the properties\<close>

text \<open>The big-endian value of a byte sequence, as a natural number.\<close>

definition be_nat :: "8 word list \<Rightarrow> nat" where
  "be_nat bytes = foldl (\<lambda>a b. a * 256 + unat b) 0 bytes"

text \<open>
  \<open>draw s bn k\<close> is the \<open>k\<close>-th block of \<open>bn\<close> bytes that the tape holds after the
  bytes already used; \<open>advance s nb nr\<close> is the source after \<open>nb\<close> more bytes and
  \<open>nr\<close> more requests.
\<close>

definition draw :: "source \<Rightarrow> nat \<Rightarrow> nat \<Rightarrow> 8 word list" where
  "draw s bn k = map (\<lambda>i. tape s (used s + k * bn + i)) [0..<bn]"

definition advance :: "source \<Rightarrow> nat \<Rightarrow> nat \<Rightarrow> source" where
  "advance s nb nr = s\<lparr>used := used s + nb, requests := requests s + nr\<rparr>"

text \<open>The error \<^verbatim>\<open>getRandomBytes\<close> throws for an underlying error with message \<open>m\<close>.\<close>

definition wrapped :: "string \<Rightarrow> error" where
  "wrapped m = CryptoGenerationError (''Failed to generate random bytes: '' @ m)"

definition unavailable :: string where
  "unavailable =
     ''No secure crypto implementation available. Ensure you are in a supported environment.''"

text \<open>A source on Node that never throws and delivers the bytes 0, 1, 2, ... in order.\<close>

definition src0 :: source where
  "src0 = \<lparr>platform = Node, tape = (\<lambda>i. of_nat i), faults = (\<lambda>k. None),
            used = 0, requests = 0\<rparr>"

text \<open>
  Sources for the examples: \<open>src3\<close> delivers 255 three times and 5 from then on;
  \<open>srcFF\<close> delivers 255 for ever; \<open>srcFault\<close> throws at its third request;
  \<open>srcNone\<close> is a platform with no secure random facility.
\<close>

definition src3 :: source where
  "src3 = \<lparr>platform = Browser, tape = (\<lambda>i. if i < 3 then 255 else 5), faults = (\<lambda>k. None),
            used = 0, requests = 0\<rparr>"

definition srcFF :: source where
  "srcFF = \<lparr>platform = Node, tape = (\<lambda>i. 255), faults = (\<lambda>k. None), used = 0, requests = 0\<rparr>"

definition srcFault :: source where
  "srcFault = \<lparr>platform = Node, tape = (\<lambda>i. 255),
      faults = (\<lambda>k. if k = 2 then Some ''entropy pool exhausted'' else None),
      used = 0, requests = 0\<rparr>"

definition srcNone :: source where
  "srcNone = \<lparr>platform = NoCrypto, tape = (\<lambda>i. 0), faults = (\<lambda>k. None), used = 0, requests = 0\<rparr>"

text \<open>
  A working source: a secure random facility exists, it never throws, and however far the
  tape has been read, a byte whose low six bits are below 62 is still to come.
\<close>

definition working :: "source \<Rightarrow> bool" where
  "working s =
     (platform s \<noteq> NoCrypto \<and> (\<forall>k. faults s k = None) \<and>
      (\<forall>i. \<exists>j. i \<le> j \<and> unat (tape s j) mod 64 < 62))"

text \<open>
  Two sources supply the same entropy when they agree on whether a secure random facility
  exists, on which of the requests still to come throw (and with what message), and on
  every byte still to come. Everything else may differ: browser or Node, how much has been
  read already, the bytes delivered in the past.
\<close>

definition same_entropy :: "source \<Rightarrow> source \<Rightarrow> bool" where
  "same_entropy s1 s2 =
     ((platform s1 = NoCrypto) = (platform s2 = NoCrypto) \<and>
      (\<forall>k. faults s1 (requests s1 + k) = faults s2 (requests s2 + k)) \<and>
      (\<forall>i. tape s1 (used s1 + i) = tape s2 (used s2 + i)))"

text \<open>A browser source that has already served five requests and ten bytes, and whose
  bytes from there on are 0, 1, 2, ...\<close>

definition srcShift :: source where
  "srcShift = \<lparr>platform = Browser, tape = (\<lambda>i. of_nat (i - 10)), faults = (\<lambda>k. None),
                used = 10, requests = 5\<rparr>"

section \<open>The sampler as specified\<close>

text \<open>
  The sampler as the specification words it (section 4.2), to compare with
  \<open>getRandomInt\<close>: the bytes are packed big-endian into an integer, the mask is
  \<open>2 ^ bitsNeeded - 1\<close> and keeps the low \<open>bitsNeeded\<close> bits, all in unbounded
  integers.
\<close>

definition spec_pack :: "8 word list \<Rightarrow> int" where
  "spec_pack bytes = foldl (\<lambda>a b. a * 256 + uint b) 0 bytes"

definition spec_mask :: "nat \<Rightarrow> int" where
  "spec_mask bits = 2 ^ bits - 1"

partial_function (option) spec_loop ::
  "int \<Rightarrow> nat \<Rightarrow> int \<Rightarrow> source \<Rightarrow> ((error + int) \<times> source) option" where
  "spec_loop maxv bytesN msk s =
     (case getRandomBytes (JInteger (int bytesN)) s of
        (Inl e, s') \<Rightarrow> Some (Inl e, s')
      | (Inr bytes, s') \<Rightarrow>
          (let num = spec_pack bytes AND msk
           in if num < maxv then Some (Inr num, s')
              else spec_loop maxv bytesN msk s'))"

fun spec_getRandomInt :: "jsval \<Rightarrow> source \<Rightarrow> ((error + int) \<times> source) option" where
  "spec_getRandomInt (JInteger maxv) s =
     (if maxv < 1 then
        Some (Inl (CryptoGenerationError ''Maximum value must be a positive integer''), s)
      else if maxv = 1 then Some (Inr 0, s)
      else spec_loop maxv (bytesNeeded maxv) (spec_mask (bitsNeeded maxv)) s)"
| "spec_getRandomInt v s =
     Some (Inl (CryptoGenerationError ''Maximum value must be a positive integer''), s)"

section \<open>Vocabulary of the configuration property\<close>

text \<open>The value a snapshot reference shows: its properties.\<close>

definition snapshot :: "heap \<Rightarrow> nat \<Rightarrow> (string \<times> pval) list" where
  "snapshot h a = props (h ! a)"

definition config_ok :: "heap \<times> nat list \<Rightarrow> bool" where
  "config_ok st =
     (case st of (h, refs) \<Rightarrow>
        h \<noteq> [] \<and> hd h = CONSTANTS \<and>
        list_all (\<lambda>a. 0 < a \<and> a < length h \<and> h ! a = \<lparr>props = props CONSTANTS, frozen = True\<rparr>) refs)"

text \<open>A caller that takes a snapshot, attacks it four ways and takes another one.\<close>

definition attack :: "client_op list" where
  "attack = [CallGetConfig,
             Attempt True 0 (Assign ''DEFAULT_LENGTH'' (PNum 10)),
             Attempt False 0 (Assign ''CHARSET'' (PStr ''x'')),
             Attempt False 0 (DefineProperty ''DEFAULT_LENGTH'' (PNum 10)),
             Attempt False 0 (Delete ''MIN_LENGTH''),
             CallGetConfig]"

section \<open>Properties\<close>

subsection \<open>Bits, bytes and masks\<close>

lemma bitsNeeded_ceillog2: "1 \<le> maxv \<Longrightarrow> bitsNeeded maxv = ceillog2 (nat maxv)"
  by (simp add: bitsNeeded_def ceillog2_def)

lemma bitsNeeded_upper: "2 \<le> maxv \<Longrightarrow> maxv \<le> 2 ^ bitsNeeded maxv"
proof -
  assume a: "2 \<le> maxv"
  have "nat maxv \<le> 2 ^ bitsNeeded maxv"
    using a le_two_power_ceillog2 [of "nat maxv"] by (simp add: bitsNeeded_ceillog2)
  then have "int (nat maxv) \<le> int (2 ^ bitsNeeded maxv)"
    by (simp only: of_nat_le_iff)
  with a show ?thesis by simp
qed

lemma bitsNeeded_lower: "2 \<le> maxv \<Longrightarrow> 2 ^ bitsNeeded maxv < 2 * maxv"
proof -
  assume a: "2 \<le> maxv"
  have "(2::nat) ^ bitsNeeded maxv < 2 * nat maxv"
    using a two_power_ceillog2_gt [of "nat maxv"] by (simp add: bitsNeeded_ceillog2)
  then have "int (2 ^ bitsNeeded maxv) < int (2 * nat maxv)"
    by (simp only: of_nat_less_iff)
  with a show ?thesis by simp
qed

lemma bitsNeeded_eqI:
  assumes "maxv \<le> 2 ^ k" and "2 ^ k < 2 * maxv"
  shows "bitsNeeded maxv = k"
proof -
  have pos: "1 \<le> maxv"
  proof (rule ccontr)
    assume "\<not> 1 \<le> maxv"
    then have "2 * maxv \<le> 0" by simp
    moreover have "(0::int) < 2 ^ k" by simp
    ultimately show False using assms(2) by linarith
  qed
  have "int (nat maxv) \<le> int (2 ^ k)" using assms(1) pos by simp
  then have 1: "nat maxv \<le> 2 ^ k" by (simp only: of_nat_le_iff)
  have "int (2 ^ k) < int (2 * nat maxv)" using assms(2) pos by simp
  then have 2: "2 ^ k < 2 * nat maxv" by (simp only: of_nat_less_iff)
  show ?thesis using ceillog2_eqI [OF 1 2] pos by (simp add: bitsNeeded_ceillog2)
qed

lemma bitsNeeded_pos: "2 \<le> maxv \<Longrightarrow> 0 < bitsNeeded maxv"
proof (rule ccontr)
  assume a: "2 \<le> maxv" and "\<not> 0 < bitsNeeded maxv"
  then have "bitsNeeded maxv = 0" by simp
  with bitsNeeded_upper [OF a] show False using a by simp
qed

lemma bytesNeeded_div: "bytesNeeded maxv = (bitsNeeded maxv + 7) div 8"
  unfolding bytesNeeded_def by linarith

lemma shl8_or: "js_shl w 8 OR ucast (b :: 8 word) = w * 256 + ucast b"
proof -
  have "push_bit 8 w + (ucast b :: 32 word) = push_bit 8 w OR ucast b"
    by (rule disjunctive_add) (auto simp: bit_simps dest: bit_imp_le_length)
  then show ?thesis
    by (simp add: js_shl_def push_bit_eq_mult)
qed

lemma pack_foldl:
  "foldl (\<lambda>num (b :: 8 word). js_shl num 8 OR ucast b) (word_of_nat a) bytes =
   word_of_nat (foldl (\<lambda>a b. a * 256 + unat b) a bytes)"
proof (induction bytes arbitrary: a)
  case Nil
  show ?case by simp
next
  case (Cons b bytes)
  have "js_shl (word_of_nat a) 8 OR ucast b = (word_of_nat a * 256 + ucast b :: 32 word)"
    by (rule shl8_or)
  also have "\<dots> = word_of_nat (a * 256 + unat b)"
    by simp
  finally have "js_shl (word_of_nat a) 8 OR ucast b = (word_of_nat (a * 256 + unat b) :: 32 word)" .
  then show ?case using Cons.IH [of "a * 256 + unat b"] by simp
qed

lemma pack_be_nat: "pack bytes = word_of_nat (be_nat bytes)"
  using pack_foldl [of 0 bytes] by (simp add: pack_def be_nat_def)

lemma maskOf_word:
  "k < 32 \<Longrightarrow> (word_of_int (sint (push_bit k (1 :: 32 word)) - 1) :: 32 word) = mask k"
  by (simp add: mask_eq_exp_minus_1)

lemma sint_and_mask:
  assumes "k < 32"
  shows "sint ((w :: 32 word) AND mask k) = int (unat w mod 2 ^ k)"
proof -
  have "uint (w AND mask k) = take_bit k (uint w)"
    by (simp add: unsigned_take_bit_eq flip: take_bit_eq_mask)
  moreover have "signed_take_bit 31 (take_bit k (uint w)) = take_bit k (uint w)"
  proof (rule signed_take_bit_int_eq_self)
    have "(0::int) \<le> take_bit k (uint w)" by simp
    then show "- (2 ^ 31) \<le> take_bit k (uint w)" by (rule order_trans [rotated]) simp
    have "take_bit k (uint w) < 2 ^ k" by simp
    moreover have "(2::int) ^ k \<le> 2 ^ 31" using assms by (intro power_increasing) simp_all
    ultimately show "take_bit k (uint w) < 2 ^ 31" by (rule less_le_trans)
  qed
  ultimately have "signed_take_bit 31 (uint (w AND mask k)) = take_bit k (uint w)"
    by simp
  then have "sint (w AND mask k) = take_bit k (uint w)"
    by (simp add: sint_uint)
  also have "\<dots> = int (unat w mod 2 ^ k)"
    by (simp add: take_bit_eq_mod zmod_int)
  finally show ?thesis .
qed

lemma masked_small:
  assumes "2 \<le> maxv" and "bitsNeeded maxv < 32"
  shows "masked bytes (maskOf maxv) = int (be_nat bytes mod 2 ^ bitsNeeded maxv)"
proof -
  let ?k = "bitsNeeded maxv"
  have m: "(word_of_int (maskOf maxv) :: 32 word) = mask ?k"
    using assms(2) by (simp add: maskOf_def js_shl_def mask_eq_exp_minus_1)
  have "be_nat bytes mod 2 ^ 32 mod 2 ^ ?k = be_nat bytes mod 2 ^ ?k"
    using assms(2) by (intro mod_mod_cancel le_imp_power_dvd) simp
  then show ?thesis
    using assms(2) by (simp add: masked_def m sint_and_mask pack_be_nat unat_of_nat)
qed

lemma bitsNeeded_le_31: "2 \<le> maxv \<Longrightarrow> maxv \<le> 2 ^ 31 \<Longrightarrow> bitsNeeded maxv < 32"
proof (rule ccontr)
  assume a: "2 \<le> maxv" "maxv \<le> 2 ^ 31" and "\<not> bitsNeeded maxv < 32"
  then have "32 \<le> bitsNeeded maxv" by simp
  then have "(2::int) ^ 32 \<le> 2 ^ bitsNeeded maxv" by (intro power_increasing) simp_all
  with bitsNeeded_lower [OF a(1)] a(2) show False by simp
qed

lemma bitsNeeded_32: "2 ^ 31 < maxv \<Longrightarrow> maxv \<le> 2 ^ 32 \<Longrightarrow> bitsNeeded maxv = 32"
  by (rule bitsNeeded_eqI) simp_all

lemma masked_32:
  assumes "2 ^ 31 < maxv" and "maxv \<le> 2 ^ 32"
  shows "masked bytes (maskOf maxv) = 0"
  using bitsNeeded_32 [OF assms] by (simp add: masked_def maskOf_def js_shl_def)

subsection \<open>The rejection loop\<close>

lemma advance_simps [simp]:
  "platform (advance s nb nr) = platform s"
  "tape (advance s nb nr) = tape s"
  "faults (advance s nb nr) = faults s"
  "used (advance s nb nr) = used s + nb"
  "requests (advance s nb nr) = requests s + nr"
  by (simp_all add: advance_def)

lemma advance_advance: "advance (advance s a b) c d = advance s (a + c) (b + d)"
  by (simp add: advance_def add.assoc)

lemma advance_0: "advance s 0 0 = s"
  by (simp add: advance_def)

lemma draw_advance: "draw (advance s bn nr) bn j = draw s bn (Suc j)"
  by (simp add: draw_def ac_simps)

lemma length_draw [simp]: "length (draw s bn k) = bn"
  by (simp add: draw_def)

lemma getCrypto_cases:
  "getCrypto p = (if p = NoCrypto then Inl (CryptoGenerationError unavailable) else Inr p)"
  by (cases p) (simp_all add: unavailable_def)

lemma getRandomBytes_pos:
  assumes "0 < bn"
  shows "getRandomBytes (JInteger (int bn)) s =
     (if platform s = NoCrypto then (Inl (wrapped unavailable), s)
      else case faults s (requests s) of
             Some m \<Rightarrow> (Inl (wrapped m), advance s 0 1)
           | None \<Rightarrow> (Inr (draw s bn 0), advance s bn 1))"
  using assms
  by (simp add: getCrypto_cases wrapped_def facility_def draw_def advance_def
      split: option.split del: getCrypto.simps)

lemma rejection_loop_step:
  assumes "0 < bn"
  shows "rejection_loop maxv bn msk s =
     (if platform s = NoCrypto then Some (Inl (wrapped unavailable), s)
      else case faults s (requests s) of
             Some m \<Rightarrow> Some (Inl (wrapped m), advance s 0 1)
           | None \<Rightarrow>
               if masked (draw s bn 0) msk < maxv
               then Some (Inr (masked (draw s bn 0) msk), advance s bn 1)
               else rejection_loop maxv bn msk (advance s bn 1))"
  by (subst rejection_loop.simps)
    (simp add: getRandomBytes_pos [OF assms] split: option.split del: getRandomBytes.simps)

lemma rejection_loop_returns:
  assumes "0 < bn" and "platform s \<noteq> NoCrypto"
    and "\<forall>j\<le>k. faults s (requests s + j) = None"
    and "\<forall>j<k. \<not> masked (draw s bn j) msk < maxv"
    and "masked (draw s bn k) msk < maxv"
  shows "rejection_loop maxv bn msk s =
     Some (Inr (masked (draw s bn k) msk), advance s (Suc k * bn) (Suc k))"
  using assms
proof (induction k arbitrary: s)
  case 0
  then show ?case
    by (subst rejection_loop_step) simp_all
next
  case (Suc k)
  let ?s' = "advance s bn 1"
  have f0: "faults s (requests s) = None"
    using Suc.prems(3) by (metis add.right_neutral le0)
  have r0: "\<not> masked (draw s bn 0) msk < maxv"
    using Suc.prems(4) by simp
  have "rejection_loop maxv bn msk ?s' =
     Some (Inr (masked (draw ?s' bn k) msk), advance ?s' (Suc k * bn) (Suc k))"
  proof (rule Suc.IH)
    show "0 < bn" by fact
    show "platform ?s' \<noteq> NoCrypto" using Suc.prems(2) by simp
    show "\<forall>j\<le>k. faults ?s' (requests ?s' + j) = None"
    proof (intro allI impI)
      fix j assume "j \<le> k"
      then have "Suc j \<le> Suc k" by simp
      with Suc.prems(3) have "faults s (requests s + Suc j) = None" by blast
      then show "faults ?s' (requests ?s' + j) = None" by simp
    qed
    show "\<forall>j<k. \<not> masked (draw ?s' bn j) msk < maxv"
      using Suc.prems(4) by (simp add: draw_advance)
    show "masked (draw ?s' bn k) msk < maxv"
      using Suc.prems(5) by (simp add: draw_advance)
  qed
  then show ?case
    using Suc.prems(1,2) f0 r0
    by (subst rejection_loop_step) (simp_all add: draw_advance advance_advance add.commute)
qed

lemma rejection_loop_terminates:
  assumes "0 < bn" and "masked (draw s bn k) msk < maxv"
  shows "\<exists>r. rejection_loop maxv bn msk s = Some r"
  using assms
proof (induction k arbitrary: s)
  case 0
  then show ?case
    by (subst rejection_loop_step) (simp_all split: option.split)
next
  case (Suc k)
  have "\<exists>r. rejection_loop maxv bn msk (advance s bn 1) = Some r"
    using Suc.prems by (intro Suc.IH) (simp_all add: draw_advance)
  then show ?case
    using Suc.prems(1) by (subst rejection_loop_step) (simp_all split: option.split)
qed

lemma rejection_loop_result:
  assumes "rejection_loop maxv bn msk s = Some r"
  shows "(\<forall>v s'. r = (Inr v, s') \<longrightarrow> v < maxv \<and> (\<exists>bytes. length bytes = bn \<and> v = masked bytes msk)) \<and>
         (\<forall>e s'. r = (Inl e, s') \<longrightarrow> isCryptoGenerationError e)"
proof (rule rejection_loop.raw_induct [where P = "\<lambda>maxv bn msk s r.
    (\<forall>v s'. r = (Inr v, s') \<longrightarrow> v < maxv \<and> (\<exists>bytes. length bytes = bn \<and> v = masked bytes msk)) \<and>
    (\<forall>e s'. r = (Inl e, s') \<longrightarrow> isCryptoGenerationError e)", OF _ assms])
  fix f :: "int \<Rightarrow> nat \<Rightarrow> int \<Rightarrow> source \<Rightarrow> ((error + int) \<times> source) option"
  fix maxv bn msk and s :: source and r :: "(error + int) \<times> source"
  assume IH: "\<And>maxv bn msk s r. f maxv bn msk s = Some r \<Longrightarrow>
    (\<forall>v s'. r = (Inr v, s') \<longrightarrow> v < maxv \<and> (\<exists>bytes. length bytes = bn \<and> v = masked bytes msk)) \<and>
    (\<forall>e s'. r = (Inl e, s') \<longrightarrow> isCryptoGenerationError e)"
  assume body: "(case getRandomBytes (JInteger (int bn)) s of
        (Inl e, s') \<Rightarrow> Some (Inl e, s')
      | (Inr bytes, s') \<Rightarrow>
          (let num = masked bytes msk
           in if num < maxv then Some (Inr num, s') else f maxv bn msk s')) = Some r"
  show "(\<forall>v s'. r = (Inr v, s') \<longrightarrow> v < maxv \<and> (\<exists>bytes. length bytes = bn \<and> v = masked bytes msk)) \<and>
    (\<forall>e s'. r = (Inl e, s') \<longrightarrow> isCryptoGenerationError e)"
  proof (cases "bn = 0")
    case True
    with body show ?thesis by auto
  next
    case False
    then have bn: "0 < bn" by simp
    have len: "length (draw s bn 0) = bn" by simp
    show ?thesis
      using body IH len
      by (auto simp: getRandomBytes_pos [OF bn] wrapped_def Let_def
          simp del: getRandomBytes.simps length_draw split: if_splits option.splits)
  qed
qed

lemma rejection_loop_diverges_aux:
  assumes "rejection_loop maxv bn msk s = Some r"
  shows "0 < bn \<longrightarrow> platform s = NoCrypto \<or> (\<exists>k. faults s (requests s + k) \<noteq> None) \<or>
         (\<exists>k. masked (draw s bn k) msk < maxv)"
proof (rule rejection_loop.raw_induct [where P = "\<lambda>maxv bn msk s r.
    0 < bn \<longrightarrow> platform s = NoCrypto \<or> (\<exists>k. faults s (requests s + k) \<noteq> None) \<or>
         (\<exists>k. masked (draw s bn k) msk < maxv)", OF _ assms])
  fix f :: "int \<Rightarrow> nat \<Rightarrow> int \<Rightarrow> source \<Rightarrow> ((error + int) \<times> source) option"
  fix maxv bn msk and s :: source and r :: "(error + int) \<times> source"
  assume IH: "\<And>maxv bn msk s r. f maxv bn msk s = Some r \<Longrightarrow>
    0 < bn \<longrightarrow> platform s = NoCrypto \<or> (\<exists>k. faults s (requests s + k) \<noteq> None) \<or>
         (\<exists>k. masked (draw s bn k) msk < maxv)"
  assume body: "(case getRandomBytes (JInteger (int bn)) s of
        (Inl e, s') \<Rightarrow> Some (Inl e, s')
      | (Inr bytes, s') \<Rightarrow>
          (let num = masked bytes msk
           in if num < maxv then Some (Inr num, s') else f maxv bn msk s')) = Some r"
  show "0 < bn \<longrightarrow> platform s = NoCrypto \<or> (\<exists>k. faults s (requests s + k) \<noteq> None) \<or>
         (\<exists>k. masked (draw s bn k) msk < maxv)"
  proof
    assume bn: "0 < bn"
    show "platform s = NoCrypto \<or> (\<exists>k. faults s (requests s + k) \<noteq> None) \<or>
         (\<exists>k. masked (draw s bn k) msk < maxv)"
    proof (cases "platform s = NoCrypto \<or> faults s (requests s) \<noteq> None
        \<or> masked (draw s bn 0) msk < maxv")
      case True
      then show ?thesis by (metis add.right_neutral)
    next
      case False
      then have "f maxv bn msk (advance s bn 1) = Some r"
        using body bn
        by (auto simp: getRandomBytes_pos Let_def simp del: getRandomBytes.simps)
      from IH [OF this] bn False show ?thesis
        by (simp add: draw_advance) (metis add_Suc_right)
    qed
  qed
qed

lemma rejection_loop_diverges:
  assumes "0 < bn" and "platform s \<noteq> NoCrypto" and "\<forall>k. faults s k = None"
    and "\<forall>k. \<not> masked (draw s bn k) msk < maxv"
  shows "rejection_loop maxv bn msk s = None"
proof (cases "rejection_loop maxv bn msk s")
  case None
  then show ?thesis .
next
  case (Some r)
  from rejection_loop_diverges_aux [OF Some] assms show ?thesis by simp
qed

subsection \<open>Validation and classification\<close>

lemma dec_small: "n < 10 \<Longrightarrow> dec n = [digit n]"
  by simp

lemma show_MIN: "show_int MIN_LENGTH = ''7''"
  by (simp add: show_int_def MIN_LENGTH_def digit_def)

lemma show_MAX: "show_int MAX_LENGTH = ''32''"
  by (simp add: show_int_def MAX_LENGTH_def digit_def)

text \<open>
  Claim C3. A probability below 0.001 is classified safe (0 in particular), one from 0.001
  up to but not including 0.1 is classified moderate (0.001 itself is moderate), and one
  of 0.1 or more is classified high-risk (0.1 itself is high-risk). The thresholds are
  compared with the probability, not with the percentage.
\<close>

theorem getSafetyLevel_thresholds:
  "(p < 0.001 \<longrightarrow> getSafetyLevel p = Safe) \<and>
   (0.001 \<le> p \<and> p < 0.1 \<longrightarrow> getSafetyLevel p = Moderate) \<and>
   (0.1 \<le> p \<longrightarrow> getSafetyLevel p = HighRisk) \<and>
   getSafetyLevel 0 = Safe \<and> getSafetyLevel 0.001 = Moderate \<and> getSafetyLevel 0.1 = HighRisk"
  by (simp add: getSafetyLevel_def COLLISION_THRESHOLDS_def)

theorem getSafetyLevel_thresholds_witness:
  "getSafetyLevel 0.0005 = Safe \<and> getSafetyLevel 0.05 = Moderate \<and> getSafetyLevel 5 = HighRisk"
  using getSafetyLevel_thresholds [of "0.0005"] getSafetyLevel_thresholds [of "0.05"]
    getSafetyLevel_thresholds [of 5]
  by simp

lemma validateLength_nonint:
  "\<not> isInteger v \<Longrightarrow> validateLength v = Inl (ZapidValidationError ''ID length must be an integer'')"
  by (cases v) simp_all

lemma defaulted_id: "v \<noteq> JUndefined \<Longrightarrow> defaulted v = v"
  by (cases v) simp_all

text \<open>
  Claim C4. A length that is not an integer (an absent argument aside: it takes the
  default 7), is below 7 or is above 32 makes both
  \<^verbatim>\<open>generate\<close> and \<^verbatim>\<open>generateWithInfo\<close> fail with a validation error, and the
  source is returned as it was: no request was made and no byte was used. The integer
  check comes first (an infinite length gets the integer message, not a bound message),
  then the minimum, then the maximum.
\<close>

theorem invalid_length_rejected:
  "(\<not> isInteger v \<and> v \<noteq> JUndefined \<longrightarrow>
      generate v s = Some (Inl (ZapidValidationError ''ID length must be an integer''), s) \<and>
      generateWithInfo v s = Some (Inl (ZapidValidationError ''ID length must be an integer''), s)) \<and>
   (n < 7 \<longrightarrow>
      generate (JInteger n) s =
        Some (Inl (ZapidValidationError ''ID length must be at least 7 characters''), s) \<and>
      generateWithInfo (JInteger n) s =
        Some (Inl (ZapidValidationError ''ID length must be at least 7 characters''), s)) \<and>
   (n > 32 \<longrightarrow>
      generate (JInteger n) s =
        Some (Inl (ZapidValidationError ''ID length cannot exceed 32 characters''), s) \<and>
      generateWithInfo (JInteger n) s =
        Some (Inl (ZapidValidationError ''ID length cannot exceed 32 characters''), s))"
proof (intro conjI impI)
  assume a: "\<not> isInteger v \<and> v \<noteq> JUndefined"
  then have "validateLength (defaulted v) = Inl (ZapidValidationError ''ID length must be an integer'')"
    by (simp add: defaulted_id validateLength_nonint)
  then show "generate v s = Some (Inl (ZapidValidationError ''ID length must be an integer''), s)"
    and "generateWithInfo v s = Some (Inl (ZapidValidationError ''ID length must be an integer''), s)"
    by (simp_all add: generate_def generateWithInfo_def)
next
  assume "n < 7"
  then have "validateLength (defaulted (JInteger n)) =
      Inl (ZapidValidationError ''ID length must be at least 7 characters'')"
    by (simp add: show_MIN) (simp add: MIN_LENGTH_def)
  then show "generate (JInteger n) s =
        Some (Inl (ZapidValidationError ''ID length must be at least 7 characters''), s)"
    and "generateWithInfo (JInteger n) s =
        Some (Inl (ZapidValidationError ''ID length must be at least 7 characters''), s)"
    by (simp_all add: generate_def generateWithInfo_def)
next
  assume "n > 32"
  then have "validateLength (defaulted (JInteger n)) =
      Inl (ZapidValidationError ''ID length cannot exceed 32 characters'')"
    by (simp add: show_MAX) (simp add: MIN_LENGTH_def MAX_LENGTH_def)
  then show "generate (JInteger n) s =
        Some (Inl (ZapidValidationError ''ID length cannot exceed 32 characters''), s)"
    and "generateWithInfo (JInteger n) s =
        Some (Inl (ZapidValidationError ''ID length cannot exceed 32 characters''), s)"
    by (simp_all add: generate_def generateWithInfo_def)
qed

theorem invalid_length_rejected_witness:
  "generate JFractional src0 = Some (Inl (ZapidValidationError ''ID length must be an integer''), src0) \<and>
   generate (JInfinity True) src0 = Some (Inl (ZapidValidationError ''ID length must be an integer''), src0) \<and>
   generateWithInfo JNaN src0 = Some (Inl (ZapidValidationError ''ID length must be an integer''), src0) \<and>
   generate (JInteger 6) src0 =
     Some (Inl (ZapidValidationError ''ID length must be at least 7 characters''), src0) \<and>
   generateWithInfo (JInteger 33) src0 =
     Some (Inl (ZapidValidationError ''ID length cannot exceed 32 characters''), src0)"
  using invalid_length_rejected [where v = JFractional and s = src0]
    invalid_length_rejected [where v = "JInfinity True" and s = src0]
    invalid_length_rejected [where v = JNaN and s = src0]
    invalid_length_rejected [where n = 6 and s = src0]
    invalid_length_rejected [where n = 33 and s = src0]
  by simp

subsection \<open>The sampler\<close>

lemma bytesNeeded_pos: "2 \<le> maxv \<Longrightarrow> 0 < bytesNeeded maxv"
  using bitsNeeded_pos [of maxv] by (simp add: bytesNeeded_div)

lemma getRandomInt_loop:
  "2 \<le> maxv \<Longrightarrow>
   getRandomInt (JInteger maxv) s = rejection_loop maxv (bytesNeeded maxv) (maskOf maxv) s"
  by simp

lemma masked_range:
  assumes "2 \<le> maxv" and "maxv \<le> 2 ^ 31"
  shows "0 \<le> masked bytes (maskOf maxv)" and "masked bytes (maskOf maxv) < 2 ^ bitsNeeded maxv"
proof -
  have eq: "masked bytes (maskOf maxv) = int (be_nat bytes mod 2 ^ bitsNeeded maxv)"
    using assms by (intro masked_small bitsNeeded_le_31)
  show "0 \<le> masked bytes (maskOf maxv)" by (simp add: eq)
  have "be_nat bytes mod 2 ^ bitsNeeded maxv < 2 ^ bitsNeeded maxv" by simp
  then have "int (be_nat bytes mod 2 ^ bitsNeeded maxv) < int (2 ^ bitsNeeded maxv)"
    by (simp only: of_nat_less_iff)
  then show "masked bytes (maskOf maxv) < 2 ^ bitsNeeded maxv" by (simp add: eq)
qed

text \<open>
  Claim C8. For an integer bound from 2 to \<open>2 ^ 31\<close> the masked sample space is smaller
  than twice the bound, \<open>2 ^ bitsNeeded < 2 * max\<close>, and every masked draw lies in it.
  The loop has no iteration cap: it returns at the first draw below the bound, however many
  draws were rejected before, it returns (a number or an error) whenever the tape holds a
  draw below the bound, and on a source that never throws and never delivers such a draw it
  runs for ever.
\<close>

theorem rejection_unbounded_terminates:
  assumes "2 \<le> maxv" and "maxv \<le> 2 ^ 31"
  shows "2 ^ bitsNeeded maxv < 2 * maxv \<and>
    (\<forall>bytes. 0 \<le> masked bytes (maskOf maxv) \<and> masked bytes (maskOf maxv) < 2 ^ bitsNeeded maxv) \<and>
    ((\<exists>k. masked (draw s (bytesNeeded maxv) k) (maskOf maxv) < maxv) \<longrightarrow>
       (\<exists>r. getRandomInt (JInteger maxv) s = Some r)) \<and>
    (\<forall>k. platform s \<noteq> NoCrypto \<and> (\<forall>j\<le>k. faults s (requests s + j) = None) \<and>
         (\<forall>j<k. \<not> masked (draw s (bytesNeeded maxv) j) (maskOf maxv) < maxv) \<and>
         masked (draw s (bytesNeeded maxv) k) (maskOf maxv) < maxv \<longrightarrow>
         getRandomInt (JInteger maxv) s =
           Some (Inr (masked (draw s (bytesNeeded maxv) k) (maskOf maxv)),
                 advance s (Suc k * bytesNeeded maxv) (Suc k))) \<and>
    (platform s \<noteq> NoCrypto \<and> (\<forall>k. faults s k = None) \<and>
       (\<forall>k. \<not> masked (draw s (bytesNeeded maxv) k) (maskOf maxv) < maxv) \<longrightarrow>
       getRandomInt (JInteger maxv) s = None)"
proof (intro conjI allI impI)
  show "2 ^ bitsNeeded maxv < 2 * maxv" using assms(1) by (rule bitsNeeded_lower)
next
  fix bytes
  show "0 \<le> masked bytes (maskOf maxv)" using assms by (rule masked_range)
  show "masked bytes (maskOf maxv) < 2 ^ bitsNeeded maxv" using assms by (rule masked_range)
next
  assume "\<exists>k. masked (draw s (bytesNeeded maxv) k) (maskOf maxv) < maxv"
  then obtain k where "masked (draw s (bytesNeeded maxv) k) (maskOf maxv) < maxv" ..
  with bytesNeeded_pos [OF assms(1)]
  have "\<exists>r. rejection_loop maxv (bytesNeeded maxv) (maskOf maxv) s = Some r"
    by (rule rejection_loop_terminates)
  then show "\<exists>r. getRandomInt (JInteger maxv) s = Some r"
    by (simp only: getRandomInt_loop [OF assms(1)])
next
  fix k
  assume a: "platform s \<noteq> NoCrypto \<and> (\<forall>j\<le>k. faults s (requests s + j) = None) \<and>
         (\<forall>j<k. \<not> masked (draw s (bytesNeeded maxv) j) (maskOf maxv) < maxv) \<and>
         masked (draw s (bytesNeeded maxv) k) (maskOf maxv) < maxv"
  have "rejection_loop maxv (bytesNeeded maxv) (maskOf maxv) s =
           Some (Inr (masked (draw s (bytesNeeded maxv) k) (maskOf maxv)),
                 advance s (Suc k * bytesNeeded maxv) (Suc k))"
    using bytesNeeded_pos [OF assms(1)] a by (intro rejection_loop_returns) simp_all
  then show "getRandomInt (JInteger maxv) s =
           Some (Inr (masked (draw s (bytesNeeded maxv) k) (maskOf maxv)),
                 advance s (Suc k * bytesNeeded maxv) (Suc k))"
    by (simp only: getRandomInt_loop [OF assms(1)])
next
  assume a: "platform s \<noteq> NoCrypto \<and> (\<forall>k. faults s k = None) \<and>
       (\<forall>k. \<not> masked (draw s (bytesNeeded maxv) k) (maskOf maxv) < maxv)"
  have "rejection_loop maxv (bytesNeeded maxv) (maskOf maxv) s = None"
    using bytesNeeded_pos [OF assms(1)] a by (intro rejection_loop_diverges) simp_all
  then show "getRandomInt (JInteger maxv) s = None"
    by (simp only: getRandomInt_loop [OF assms(1)])
qed

lemma bitsNeeded_62: "bitsNeeded 62 = 6"
  by (rule bitsNeeded_eqI) simp_all

lemma bytesNeeded_62: "bytesNeeded 62 = 1"
  by (simp add: bytesNeeded_div bitsNeeded_62)

lemma maskOf_62: "maskOf 62 = 63"
  by (simp add: maskOf_def bitsNeeded_62 js_shl_def)

lemma masked_byte_62: "masked [b] (maskOf 62) = int (unat b mod 64)"
proof -
  have "masked [b] (maskOf 62) = int (be_nat [b] mod 2 ^ bitsNeeded 62)"
    by (rule masked_small) (simp_all add: bitsNeeded_62)
  also have "\<dots> = int (unat b mod 64)"
    by (simp add: bitsNeeded_62 be_nat_def)
  finally show ?thesis .
qed

lemma draw_1: "draw s (Suc 0) k = [tape s (used s + k)]"
  by (simp add: draw_def)

theorem rejection_unbounded_terminates_witness:
  "(2::int) \<le> 62 \<and> (62::int) \<le> 2 ^ 31 \<and> (2::int) ^ bitsNeeded 62 < 2 * 62 \<and>
   getRandomInt (JInteger 62) src3 = Some (Inr 5, advance src3 4 4)"
proof -
  have d: "draw src3 (Suc 0) k = [if k < 3 then 255 else 5]" for k
    by (simp add: draw_1 src3_def)
  have rej: "\<forall>j<3. \<not> masked (draw src3 (bytesNeeded 62) j) (maskOf 62) < 62"
    by (simp add: bytesNeeded_62 d masked_byte_62)
  have acc: "masked (draw src3 (bytesNeeded 62) 3) (maskOf 62) = 5"
    by (simp add: bytesNeeded_62 d masked_byte_62)
  have env: "platform src3 \<noteq> NoCrypto \<and> (\<forall>j\<le>3. faults src3 (requests src3 + j) = None)"
    by (simp add: src3_def)
  have h1: "(2::int) \<le> 62" and h2: "(62::int) \<le> 2 ^ 31" by simp_all
  have acc': "masked (draw src3 (bytesNeeded 62) 3) (maskOf 62) < 62"
    by (simp add: acc)
  have "getRandomInt (JInteger 62) src3 =
      Some (Inr (masked (draw src3 (bytesNeeded 62) 3) (maskOf 62)),
            advance src3 (Suc 3 * bytesNeeded 62) (Suc 3))"
    using rejection_unbounded_terminates [OF h1 h2, of src3] rej acc' env by blast
  moreover have "masked (draw src3 (Suc 0) 3) (maskOf 62) = 5"
    by (simp add: d masked_byte_62)
  ultimately have "getRandomInt (JInteger 62) src3 = Some (Inr 5, advance src3 4 4)"
    by (simp add: bytesNeeded_62)
  moreover have "(2::int) ^ bitsNeeded 62 < 2 * 62"
    using rejection_unbounded_terminates [OF h1 h2, of src3] by blast
  ultimately show ?thesis by simp
qed

lemma bytesNeeded_32: "2 ^ 31 < maxv \<Longrightarrow> maxv \<le> 2 ^ 32 \<Longrightarrow> bytesNeeded maxv = 4"
  by (simp add: bytesNeeded_div bitsNeeded_32)

lemma maskOf_32: "2 ^ 31 < maxv \<Longrightarrow> maxv \<le> 2 ^ 32 \<Longrightarrow> maskOf maxv = 0"
  by (simp add: maskOf_def bitsNeeded_32 js_shl_def)

lemma rejection_loop_faults:
  assumes "0 < bn" and "platform s \<noteq> NoCrypto"
    and "\<forall>j<k. faults s (requests s + j) = None"
    and "\<forall>j<k. \<not> masked (draw s bn j) msk < maxv"
    and "faults s (requests s + k) = Some m"
  shows "rejection_loop maxv bn msk s = Some (Inl (wrapped m), advance s (k * bn) (Suc k))"
  using assms
proof (induction k arbitrary: s)
  case 0
  then show ?case
    by (subst rejection_loop_step) simp_all
next
  case (Suc k)
  let ?s' = "advance s bn 1"
  have f0: "faults s (requests s) = None"
    using Suc.prems(3) by (metis add.right_neutral zero_less_Suc)
  have r0: "\<not> masked (draw s bn 0) msk < maxv"
    using Suc.prems(4) by simp
  have "rejection_loop maxv bn msk ?s' = Some (Inl (wrapped m), advance ?s' (k * bn) (Suc k))"
  proof (rule Suc.IH)
    show "0 < bn" by fact
    show "platform ?s' \<noteq> NoCrypto" using Suc.prems(2) by simp
    show "\<forall>j<k. faults ?s' (requests ?s' + j) = None"
    proof (intro allI impI)
      fix j assume "j < k"
      then have "Suc j < Suc k" by simp
      with Suc.prems(3) have "faults s (requests s + Suc j) = None" by blast
      then show "faults ?s' (requests ?s' + j) = None" by simp
    qed
    show "\<forall>j<k. \<not> masked (draw ?s' bn j) msk < maxv"
      using Suc.prems(4) by (simp add: draw_advance)
    show "faults ?s' (requests ?s' + k) = Some m"
      using Suc.prems(5) by simp
  qed
  then show ?case
    using Suc.prems(1,2) f0 r0
    by (subst rejection_loop_step) (simp_all add: advance_advance add.commute)
qed

text \<open>
  Claim C9. For a bound above \<open>2 ^ 31\<close> and up to \<open>2 ^ 32\<close>, \<open>bitsNeeded\<close> is 32, the
  32-bit shift leaves \<open>1 << 32 = 1\<close> and the mask is 0, so every masked draw is 0 and is
  accepted: the first iteration returns 0 whatever four bytes the source delivered, and no
  other number is ever returned.
\<close>

theorem getRandomInt_above_2_31_constant:
  assumes "2 ^ 31 < maxv" and "maxv \<le> 2 ^ 32"
  shows "bitsNeeded maxv = 32 \<and> maskOf maxv = 0 \<and>
    (\<forall>bytes. masked bytes (maskOf maxv) = 0) \<and>
    (platform s \<noteq> NoCrypto \<and> faults s (requests s) = None \<longrightarrow>
       getRandomInt (JInteger maxv) s = Some (Inr 0, advance s 4 1)) \<and>
    (\<forall>v s'. getRandomInt (JInteger maxv) s = Some (Inr v, s') \<longrightarrow> v = 0) \<and>
    (\<exists>r. getRandomInt (JInteger maxv) s = Some r)"
proof -
  have two: "2 \<le> maxv"
  proof -
    have "(2::int) \<le> 2 ^ 31" by simp
    with assms(1) show ?thesis by linarith
  qed
  have m0: "masked bytes (maskOf maxv) = 0" for bytes
    using assms by (rule masked_32)
  have acc: "masked bytes (maskOf maxv) < maxv" for bytes
    using two by (simp add: m0)
  have loop: "getRandomInt (JInteger maxv) s = rejection_loop maxv 4 (maskOf maxv) s"
    using two by (simp add: bytesNeeded_32 [OF assms])
  have step: "rejection_loop maxv 4 (maskOf maxv) s =
     (if platform s = NoCrypto then Some (Inl (wrapped unavailable), s)
      else case faults s (requests s) of
             Some m \<Rightarrow> Some (Inl (wrapped m), advance s 0 1)
           | None \<Rightarrow> Some (Inr 0, advance s 4 1))"
    using two by (subst rejection_loop_step) (simp_all add: m0 split: option.split)
  show ?thesis
    unfolding loop step
    using bitsNeeded_32 [OF assms] maskOf_32 [OF assms] m0
    by (auto split: option.split)
qed

theorem getRandomInt_above_2_31_constant_witness:
  "(2::int) ^ 31 < 4294967296 \<and> (4294967296::int) \<le> 2 ^ 32 \<and>
   getRandomInt (JInteger 4294967296) srcFF = Some (Inr 0, advance srcFF 4 1) \<and>
   getRandomInt (JInteger 4294967296) src0 = Some (Inr 0, advance src0 4 1)"
proof -
  have h1: "(2::int) ^ 31 < 4294967296" and h2: "(4294967296::int) \<le> 2 ^ 32" by simp_all
  have "platform srcFF \<noteq> NoCrypto \<and> faults srcFF (requests srcFF) = None"
    by (simp add: srcFF_def)
  with getRandomInt_above_2_31_constant [OF h1 h2, of srcFF]
  have 1: "getRandomInt (JInteger 4294967296) srcFF = Some (Inr 0, advance srcFF 4 1)" by blast
  have "platform src0 \<noteq> NoCrypto \<and> faults src0 (requests src0) = None"
    by (simp add: src0_def)
  with getRandomInt_above_2_31_constant [OF h1 h2, of src0]
  have 2: "getRandomInt (JInteger 4294967296) src0 = Some (Inr 0, advance src0 4 1)" by blast
  from 1 2 h1 h2 show ?thesis by blast
qed

lemma getRandomInt_errors:
  assumes "getRandomInt v s = Some (Inl e, s')"
  shows "isCryptoGenerationError e"
proof (cases v)
  case (JInteger maxv)
  show ?thesis
  proof (cases "maxv \<le> 1")
    case True
    with assms JInteger show ?thesis by (auto split: if_splits)
  next
    case False
    with assms JInteger
    have "rejection_loop maxv (bytesNeeded maxv) (maskOf maxv) s = Some (Inl e, s')"
      by simp
    from rejection_loop_result [OF this] show ?thesis by simp
  qed
qed (use assms in auto)

text \<open>
  Claim C6. \<^verbatim>\<open>getRandomBytes\<close> and \<^verbatim>\<open>getRandomInt\<close> fail with a CryptoGenerationError
  when their argument is not a positive integer. When no secure random facility is
  available, or the facility throws, \<^verbatim>\<open>getRandomBytes\<close> fails with a
  CryptoGenerationError whose message ends with the message of the underlying error, and
  \<^verbatim>\<open>getRandomInt\<close> fails with that same error, at whichever iteration it happens. Every
  error of \<^verbatim>\<open>getRandomInt\<close> is a CryptoGenerationError.
\<close>

theorem crypto_errors:
  "(\<not> (\<exists>n. v = JInteger n \<and> 1 \<le> n) \<longrightarrow>
      getRandomBytes v s =
        (Inl (CryptoGenerationError ''Random bytes length must be a positive integer''), s) \<and>
      getRandomInt v s =
        Some (Inl (CryptoGenerationError ''Maximum value must be a positive integer''), s)) \<and>
   (1 \<le> n \<and> platform s = NoCrypto \<longrightarrow>
      getRandomBytes (JInteger n) s =
        (Inl (CryptoGenerationError (''Failed to generate random bytes: '' @
           ''No secure crypto implementation available. Ensure you are in a supported environment.'')), s)) \<and>
   (1 \<le> n \<and> platform s \<noteq> NoCrypto \<and> faults s (requests s) = Some m \<longrightarrow>
      getRandomBytes (JInteger n) s =
        (Inl (CryptoGenerationError (''Failed to generate random bytes: '' @ m)), advance s 0 1)) \<and>
   (2 \<le> maxv \<and> getRandomBytes (JInteger (int (bytesNeeded maxv))) s = (Inl e, s') \<longrightarrow>
      getRandomInt (JInteger maxv) s = Some (Inl e, s')) \<and>
   (2 \<le> maxv \<and> platform s \<noteq> NoCrypto \<and>
    (\<forall>j<k. faults s (requests s + j) = None \<and>
            \<not> masked (draw s (bytesNeeded maxv) j) (maskOf maxv) < maxv) \<and>
    faults s (requests s + k) = Some m \<longrightarrow>
      getRandomInt (JInteger maxv) s =
        Some (Inl (CryptoGenerationError (''Failed to generate random bytes: '' @ m)),
              advance s (k * bytesNeeded maxv) (Suc k))) \<and>
   (\<forall>e' t. getRandomInt v s = Some (Inl e', t) \<longrightarrow> isCryptoGenerationError e')"
proof (intro conjI impI allI)
  assume a: "\<not> (\<exists>n. v = JInteger n \<and> 1 \<le> n)"
  show "getRandomBytes v s =
        (Inl (CryptoGenerationError ''Random bytes length must be a positive integer''), s)"
    using a by (cases v) auto
  show "getRandomInt v s =
        Some (Inl (CryptoGenerationError ''Maximum value must be a positive integer''), s)"
    using a by (cases v) auto
next
  assume "1 \<le> n \<and> platform s = NoCrypto"
  then show "getRandomBytes (JInteger n) s =
        (Inl (CryptoGenerationError (''Failed to generate random bytes: '' @
           ''No secure crypto implementation available. Ensure you are in a supported environment.'')), s)"
    by simp
next
  assume "1 \<le> n \<and> platform s \<noteq> NoCrypto \<and> faults s (requests s) = Some m"
  then show "getRandomBytes (JInteger n) s =
        (Inl (CryptoGenerationError (''Failed to generate random bytes: '' @ m)), advance s 0 1)"
    by (cases "platform s") (simp_all add: facility_def advance_def)
next
  assume "2 \<le> maxv \<and> getRandomBytes (JInteger (int (bytesNeeded maxv))) s = (Inl e, s')"
  then show "getRandomInt (JInteger maxv) s = Some (Inl e, s')"
    by (simp del: getRandomBytes.simps) (subst rejection_loop.simps, simp del: getRandomBytes.simps)
next
  assume a: "2 \<le> maxv \<and> platform s \<noteq> NoCrypto \<and>
    (\<forall>j<k. faults s (requests s + j) = None \<and>
            \<not> masked (draw s (bytesNeeded maxv) j) (maskOf maxv) < maxv) \<and>
    faults s (requests s + k) = Some m"
  then have "rejection_loop maxv (bytesNeeded maxv) (maskOf maxv) s =
      Some (Inl (wrapped m), advance s (k * bytesNeeded maxv) (Suc k))"
    by (intro rejection_loop_faults bytesNeeded_pos) simp_all
  with a show "getRandomInt (JInteger maxv) s =
        Some (Inl (CryptoGenerationError (''Failed to generate random bytes: '' @ m)),
              advance s (k * bytesNeeded maxv) (Suc k))"
    by (simp add: wrapped_def)
next
  fix e' t
  assume "getRandomInt v s = Some (Inl e', t)"
  then show "isCryptoGenerationError e'" by (rule getRandomInt_errors)
qed

theorem crypto_errors_witness:
  "getRandomBytes (JInteger 0) src0 =
     (Inl (CryptoGenerationError ''Random bytes length must be a positive integer''), src0) \<and>
   getRandomBytes JFractional src0 =
     (Inl (CryptoGenerationError ''Random bytes length must be a positive integer''), src0) \<and>
   getRandomInt (JInfinity True) src0 =
     Some (Inl (CryptoGenerationError ''Maximum value must be a positive integer''), src0) \<and>
   getRandomInt (JInteger (- 3)) src0 =
     Some (Inl (CryptoGenerationError ''Maximum value must be a positive integer''), src0) \<and>
   getRandomBytes (JInteger 4) srcNone =
     (Inl (CryptoGenerationError (''Failed to generate random bytes: '' @
           ''No secure crypto implementation available. Ensure you are in a supported environment.'')), srcNone) \<and>
   getRandomInt (JInteger 62) srcNone =
     Some (Inl (CryptoGenerationError (''Failed to generate random bytes: '' @
           ''No secure crypto implementation available. Ensure you are in a supported environment.'')), srcNone) \<and>
   getRandomInt (JInteger 62) srcFault =
     Some (Inl (CryptoGenerationError ''Failed to generate random bytes: entropy pool exhausted''),
           advance srcFault 2 3)"
proof -
  have 1: "getRandomBytes (JInteger 0) src0 =
     (Inl (CryptoGenerationError ''Random bytes length must be a positive integer''), src0)"
    using crypto_errors [where v = "JInteger 0" and s = src0] by simp
  have 2: "getRandomBytes JFractional src0 =
     (Inl (CryptoGenerationError ''Random bytes length must be a positive integer''), src0)"
    using crypto_errors [where v = JFractional and s = src0] by simp
  have 3: "getRandomInt (JInfinity True) src0 =
     Some (Inl (CryptoGenerationError ''Maximum value must be a positive integer''), src0)"
    using crypto_errors [where v = "JInfinity True" and s = src0] by simp
  have 4: "getRandomInt (JInteger (- 3)) src0 =
     Some (Inl (CryptoGenerationError ''Maximum value must be a positive integer''), src0)"
    using crypto_errors [where v = "JInteger (- 3)" and s = src0] by simp
  have 5: "getRandomBytes (JInteger 4) srcNone =
     (Inl (CryptoGenerationError (''Failed to generate random bytes: '' @
           ''No secure crypto implementation available. Ensure you are in a supported environment.'')), srcNone)"
    using crypto_errors [where n = 4 and s = srcNone] by (simp add: srcNone_def)
  have "getRandomBytes (JInteger (int (bytesNeeded 62))) srcNone =
     (Inl (CryptoGenerationError (''Failed to generate random bytes: '' @
           ''No secure crypto implementation available. Ensure you are in a supported environment.'')), srcNone)"
    using crypto_errors [where n = "int (bytesNeeded 62)" and s = srcNone]
    by (simp add: srcNone_def bytesNeeded_62)
  then have 6: "getRandomInt (JInteger 62) srcNone =
     Some (Inl (CryptoGenerationError (''Failed to generate random bytes: '' @
           ''No secure crypto implementation available. Ensure you are in a supported environment.'')), srcNone)"
    using crypto_errors [where maxv = 62 and s = srcNone] by simp
  have d: "draw srcFault (Suc 0) j = [255]" for j
    by (simp add: draw_1 srcFault_def)
  have pre: "2 \<le> (62::int) \<and> platform srcFault \<noteq> NoCrypto \<and>
    (\<forall>j<2. faults srcFault (requests srcFault + j) = None \<and>
            \<not> masked (draw srcFault (bytesNeeded 62) j) (maskOf 62) < 62) \<and>
    faults srcFault (requests srcFault + 2) = Some ''entropy pool exhausted''"
    by (simp add: bytesNeeded_62 d masked_byte_62) (simp add: srcFault_def)
  have "getRandomInt (JInteger 62) srcFault =
     Some (Inl (CryptoGenerationError (''Failed to generate random bytes: '' @ ''entropy pool exhausted'')),
           advance srcFault (2 * bytesNeeded 62) (Suc 2))"
    using crypto_errors [where maxv = 62 and s = srcFault and k = 2 and m = "''entropy pool exhausted''"] pre
    by blast
  then have 7: "getRandomInt (JInteger 62) srcFault =
     Some (Inl (CryptoGenerationError ''Failed to generate random bytes: entropy pool exhausted''),
           advance srcFault 2 3)"
    by (simp add: bytesNeeded_62)
  from 1 2 3 4 5 6 7 show ?thesis by blast
qed

subsection \<open>The generator\<close>

lemma CHARSET_length: "length CHARSET = 62"
  by (simp add: CHARSET_def)

lemma CHARSET_distinct: "distinct CHARSET"
  by (simp add: CHARSET_def)

lemma working_advance: "working s \<Longrightarrow> working (advance s nb nr)"
  by (simp add: working_def)

lemma getRandomInt_62_range:
  assumes "getRandomInt (JInteger 62) s = Some (Inr v, s')"
  shows "0 \<le> v \<and> v < 62"
proof -
  from assms have "rejection_loop 62 (bytesNeeded 62) (maskOf 62) s = Some (Inr v, s')"
    by simp
  from rejection_loop_result [OF this]
  obtain bytes where "v < 62" and "v = masked bytes (maskOf 62)" by auto
  moreover have "0 \<le> masked bytes (maskOf 62)"
    by (rule masked_range) simp_all
  ultimately show ?thesis by simp
qed

lemma getRandomInt_62_working:
  assumes "working s"
  shows "\<exists>v k. getRandomInt (JInteger 62) s = Some (Inr v, advance s (Suc k) (Suc k)) \<and>
           0 \<le> v \<and> v < 62"
proof -
  let ?acc = "\<lambda>k. masked (draw s (Suc 0) k) (maskOf 62) < 62"
  from assms obtain j where j: "used s \<le> j" "unat (tape s j) mod 64 < 62"
    unfolding working_def by blast
  have "?acc (j - used s)"
    using j by (simp add: draw_1 masked_byte_62)
  then have ex: "\<exists>k. ?acc k" ..
  define k where "k = (LEAST k. ?acc k)"
  have acc: "?acc k" unfolding k_def using ex by (rule LeastI_ex)
  have rej: "\<forall>j<k. \<not> ?acc j" unfolding k_def using not_less_Least by blast
  have "rejection_loop 62 (Suc 0) (maskOf 62) s =
      Some (Inr (masked (draw s (Suc 0) k) (maskOf 62)), advance s (Suc k * Suc 0) (Suc k))"
    using assms acc rej by (intro rejection_loop_returns) (simp_all add: working_def)
  then have "getRandomInt (JInteger 62) s =
      Some (Inr (masked (draw s (Suc 0) k) (maskOf 62)), advance s (Suc k) (Suc k))"
    by (simp add: bytesNeeded_62)
  moreover have "0 \<le> masked (draw s (Suc 0) k) (maskOf 62)"
    by (rule masked_range) simp_all
  ultimately show ?thesis using acc by blast
qed

lemma charsetAt_member:
  assumes "0 \<le> v" and "v < 62"
  shows "length (charsetAt v) = 1 \<and> set (charsetAt v) \<subseteq> set CHARSET"
proof -
  have "nat v < length CHARSET" using assms by (simp add: CHARSET_length)
  then have "CHARSET ! nat v \<in> set CHARSET" by (rule nth_mem)
  then show ?thesis using assms by (simp add: charsetAt_def CHARSET_length)
qed

lemma generate_loop_partial:
  "generate_loop n acc s = Some (Inr ident, s') \<Longrightarrow>
   \<exists>w. ident = acc @ w \<and> length w = n \<and> set w \<subseteq> set CHARSET"
proof (induction n arbitrary: acc s)
  case 0
  then show ?case by simp
next
  case (Suc n)
  from Suc.prems obtain v t where
    g: "getRandomInt (JInteger 62) s = Some (Inr v, t)" and
    rest: "generate_loop n (acc @ charsetAt v) t = Some (Inr ident, s')"
    by (auto simp: CHARSET_length simp del: getRandomInt.simps split: option.splits sum.splits)
  from getRandomInt_62_range [OF g] have c: "length (charsetAt v) = 1 \<and> set (charsetAt v) \<subseteq> set CHARSET"
    by (intro charsetAt_member) simp_all
  from Suc.IH [OF rest] obtain w where
    w: "ident = (acc @ charsetAt v) @ w" "length w = n" "set w \<subseteq> set CHARSET" by blast
  show ?case
  proof (intro exI conjI)
    show "ident = acc @ (charsetAt v @ w)" using w(1) by simp
    show "length (charsetAt v @ w) = Suc n" using w(2) c by simp
    show "set (charsetAt v @ w) \<subseteq> set CHARSET" using w(3) c by simp
  qed
qed

lemma generate_loop_total:
  "working s \<Longrightarrow>
   \<exists>w s'. generate_loop n acc s = Some (Inr (acc @ w), s') \<and> length w = n \<and>
     set w \<subseteq> set CHARSET \<and> working s'"
proof (induction n arbitrary: acc s)
  case 0
  then show ?case by simp
next
  case (Suc n)
  from getRandomInt_62_working [OF Suc.prems] obtain v k where
    g: "getRandomInt (JInteger 62) s = Some (Inr v, advance s (Suc k) (Suc k))" and
    v: "0 \<le> v" "v < 62" by blast
  have c: "length (charsetAt v) = 1 \<and> set (charsetAt v) \<subseteq> set CHARSET"
    using v by (rule charsetAt_member)
  have "working (advance s (Suc k) (Suc k))"
    using Suc.prems by (rule working_advance)
  from Suc.IH [OF this, of "acc @ charsetAt v"] obtain w s' where
    w: "generate_loop n (acc @ charsetAt v) (advance s (Suc k) (Suc k)) =
          Some (Inr ((acc @ charsetAt v) @ w), s')"
       "length w = n" "set w \<subseteq> set CHARSET" "working s'" by blast
  show ?case
  proof (intro exI conjI)
    show "generate_loop (Suc n) acc s = Some (Inr (acc @ (charsetAt v @ w)), s')"
      using g w(1) by (simp add: CHARSET_length del: getRandomInt.simps)
    show "length (charsetAt v @ w) = Suc n" using w(2) c by simp
    show "set (charsetAt v @ w) \<subseteq> set CHARSET" using w(3) c by simp
    show "working s'" by fact
  qed
qed

lemma generate_valid:
  "7 \<le> n \<Longrightarrow> n \<le> 32 \<Longrightarrow> generate (JInteger n) s = generate_loop (nat n) [] s"
  by (simp add: generate_def MIN_LENGTH_def MAX_LENGTH_def)

text \<open>
  Claim C1. For every integer length from 7 to 32, a string that \<^verbatim>\<open>generate\<close> returns
  has exactly that many characters, each of them in the charset of 62 distinct
  characters a-z, A-Z, 0-9; and on a working source \<^verbatim>\<open>generate\<close> does return such a string.
\<close>

theorem generate_length_charset:
  assumes "7 \<le> n" and "n \<le> 32"
  shows "(\<forall>ident s'. generate (JInteger n) s = Some (Inr ident, s') \<longrightarrow>
            int (length ident) = n \<and> set ident \<subseteq> set CHARSET) \<and>
         (working s \<longrightarrow>
            (\<exists>ident s'. generate (JInteger n) s = Some (Inr ident, s') \<and>
               int (length ident) = n \<and> set ident \<subseteq> set CHARSET)) \<and>
         length CHARSET = 62 \<and> distinct CHARSET \<and>
         CHARSET = ''abcdefghijklmnopqrstuvwxyz'' @ ''ABCDEFGHIJKLMNOPQRSTUVWXYZ'' @ ''0123456789''"
proof (intro conjI allI impI)
  fix ident s'
  assume "generate (JInteger n) s = Some (Inr ident, s')"
  then have "generate_loop (nat n) [] s = Some (Inr ident, s')"
    using assms by (simp add: generate_valid)
  from generate_loop_partial [OF this] assms
  show "int (length ident) = n" and "set ident \<subseteq> set CHARSET" by auto
next
  assume "working s"
  from generate_loop_total [OF this, of "nat n" "[]"] assms
  show "\<exists>ident s'. generate (JInteger n) s = Some (Inr ident, s') \<and>
               int (length ident) = n \<and> set ident \<subseteq> set CHARSET"
    by (auto simp: generate_valid)
next
  show "length CHARSET = 62" by (rule CHARSET_length)
  show "distinct CHARSET" by (rule CHARSET_distinct)
  show "CHARSET = ''abcdefghijklmnopqrstuvwxyz'' @ ''ABCDEFGHIJKLMNOPQRSTUVWXYZ'' @ ''0123456789''"
    by (simp add: CHARSET_def)
qed

lemma working_src0: "working src0"
proof -
  have "\<exists>j. i \<le> j \<and> unat (word_of_nat j :: 8 word) mod 64 < 62" for i
  proof (intro exI conjI)
    show "i \<le> 256 * i" by simp
    show "unat (word_of_nat (256 * i) :: 8 word) mod 64 < 62"
      by (simp only: unat_of_nat) simp
  qed
  then show ?thesis by (simp add: working_def src0_def)
qed

lemma getRandomInt_62_accept:
  assumes "platform s \<noteq> NoCrypto" and "faults s (requests s) = None"
    and "unat (tape s (used s)) mod 64 < 62"
  shows "getRandomInt (JInteger 62) s =
           Some (Inr (int (unat (tape s (used s)) mod 64)), advance s 1 1)"
  using assms
  by (simp add: bytesNeeded_62) (subst rejection_loop_step, simp_all add: draw_1 masked_byte_62)

lemma generate_src0: "generate (JInteger 7) src0 = Some (Inr ''abcdefg'', advance src0 7 7)"
proof -
  have p: "platform src0 = Node" by (simp add: src0_def)
  have f: "faults src0 k = None" for k by (simp add: src0_def)
  have t: "tape src0 i = word_of_nat i" for i by (simp add: src0_def)
  have u: "used src0 = 0" by (simp add: src0_def)
  have step: "a < 62 \<Longrightarrow> getRandomInt (JInteger 62) (advance src0 a b) =
      Some (Inr (int a), advance src0 (Suc a) (Suc b))" for a b
    using getRandomInt_62_accept [of "advance src0 a b"]
    by (simp add: p f t u unat_of_nat advance_advance del: getRandomInt.simps)
  have "generate_loop 7 [] (advance src0 0 0) = Some (Inr ''abcdefg'', advance src0 7 7)"
    by (simp add: eval_nat_numeral CHARSET_length step charsetAt_def del: getRandomInt.simps)
      (simp add: CHARSET_def)
  then show ?thesis
    by (simp add: generate_valid advance_0)
qed

theorem generate_length_charset_witness:
  "(7::int) \<le> 7 \<and> (7::int) \<le> 32 \<and> working src0 \<and>
   generate (JInteger 7) src0 = Some (Inr ''abcdefg'', advance src0 7 7) \<and>
   (\<exists>ident s'. generate (JInteger 7) src0 = Some (Inr ident, s') \<and>
      int (length ident) = 7 \<and> set ident \<subseteq> set CHARSET)"
proof -
  have h1: "(7::int) \<le> 7" and h2: "(7::int) \<le> 32" by simp_all
  from generate_length_charset [OF h1 h2, of src0] working_src0
  have "\<exists>ident s'. generate (JInteger 7) src0 = Some (Inr ident, s') \<and>
      int (length ident) = 7 \<and> set ident \<subseteq> set CHARSET" by blast
  with working_src0 generate_src0 show ?thesis by simp
qed

subsection \<open>Determinism\<close>

lemma same_entropy_sym: "same_entropy s1 s2 \<Longrightarrow> same_entropy s2 s1"
  by (simp add: same_entropy_def)

lemma same_entropy_advance:
  "same_entropy s1 s2 \<Longrightarrow> same_entropy (advance s1 d q) (advance s2 d q)"
  by (simp add: same_entropy_def add.assoc)

lemma same_entropy_draw: "same_entropy s1 s2 \<Longrightarrow> draw s1 bn k = draw s2 bn k"
  by (simp add: same_entropy_def draw_def add.assoc)

lemma same_entropy_fault: "same_entropy s1 s2 \<Longrightarrow> faults s1 (requests s1) = faults s2 (requests s2)"
  unfolding same_entropy_def by (metis add.right_neutral)

lemma same_entropy_platform:
  "same_entropy s1 s2 \<Longrightarrow> (platform s1 = NoCrypto) = (platform s2 = NoCrypto)"
  by (simp add: same_entropy_def)

lemma rejection_loop_sim:
  assumes "rejection_loop maxv bn msk s1 = Some r"
  shows "0 < bn \<longrightarrow> (\<forall>s2. same_entropy s1 s2 \<longrightarrow>
           (\<exists>d q. snd r = advance s1 d q \<and>
                  rejection_loop maxv bn msk s2 = Some (fst r, advance s2 d q)))"
proof (rule rejection_loop.raw_induct [where P = "\<lambda>maxv bn msk s1 r.
    0 < bn \<longrightarrow> (\<forall>s2. same_entropy s1 s2 \<longrightarrow>
           (\<exists>d q. snd r = advance s1 d q \<and>
                  rejection_loop maxv bn msk s2 = Some (fst r, advance s2 d q)))", OF _ assms])
  fix f :: "int \<Rightarrow> nat \<Rightarrow> int \<Rightarrow> source \<Rightarrow> ((error + int) \<times> source) option"
  fix maxv bn msk and s1 :: source and r :: "(error + int) \<times> source"
  assume IH: "\<And>maxv bn msk s1 r. f maxv bn msk s1 = Some r \<Longrightarrow>
    0 < bn \<longrightarrow> (\<forall>s2. same_entropy s1 s2 \<longrightarrow>
           (\<exists>d q. snd r = advance s1 d q \<and>
                  rejection_loop maxv bn msk s2 = Some (fst r, advance s2 d q)))"
  assume body: "(case getRandomBytes (JInteger (int bn)) s1 of
        (Inl e, s') \<Rightarrow> Some (Inl e, s')
      | (Inr bytes, s') \<Rightarrow>
          (let num = masked bytes msk
           in if num < maxv then Some (Inr num, s') else f maxv bn msk s')) = Some r"
  show "0 < bn \<longrightarrow> (\<forall>s2. same_entropy s1 s2 \<longrightarrow>
           (\<exists>d q. snd r = advance s1 d q \<and>
                  rejection_loop maxv bn msk s2 = Some (fst r, advance s2 d q)))"
  proof (intro impI allI)
    fix s2
    assume bn: "0 < bn" and se: "same_entropy s1 s2"
    note pl = same_entropy_platform [OF se]
    note fl = same_entropy_fault [OF se]
    note dr = same_entropy_draw [OF se, of bn 0]
    show "\<exists>d q. snd r = advance s1 d q \<and>
                  rejection_loop maxv bn msk s2 = Some (fst r, advance s2 d q)"
    proof (cases "platform s1 = NoCrypto")
      case True
      with body bn have r: "r = (Inl (wrapped unavailable), s1)"
        by (simp add: getRandomBytes_pos del: getRandomBytes.simps)
      have "rejection_loop maxv bn msk s2 = Some (Inl (wrapped unavailable), s2)"
        using True pl bn by (subst rejection_loop_step) simp_all
      then have "snd r = advance s1 0 0 \<and>
          rejection_loop maxv bn msk s2 = Some (fst r, advance s2 0 0)"
        by (simp add: r advance_0)
      then show ?thesis by blast
    next
      case False
      then have p2: "platform s2 \<noteq> NoCrypto" using pl by simp
      show ?thesis
      proof (cases "faults s1 (requests s1)")
        case (Some m)
        with body bn False have r: "r = (Inl (wrapped m), advance s1 0 1)"
          by (simp add: getRandomBytes_pos del: getRandomBytes.simps)
        have "rejection_loop maxv bn msk s2 = Some (Inl (wrapped m), advance s2 0 1)"
          using Some fl p2 bn by (subst rejection_loop_step) simp_all
        then have "snd r = advance s1 0 1 \<and>
            rejection_loop maxv bn msk s2 = Some (fst r, advance s2 0 1)"
          by (simp add: r)
        then show ?thesis by blast
      next
        case None
        then have f2: "faults s2 (requests s2) = None" using fl by simp
        show ?thesis
        proof (cases "masked (draw s1 bn 0) msk < maxv")
          case True
          with body bn False None
          have r: "r = (Inr (masked (draw s1 bn 0) msk), advance s1 bn 1)"
            by (simp add: getRandomBytes_pos del: getRandomBytes.simps)
          have "rejection_loop maxv bn msk s2 =
              Some (Inr (masked (draw s1 bn 0) msk), advance s2 bn 1)"
            using True f2 p2 bn dr by (subst rejection_loop_step) simp_all
          then have "snd r = advance s1 bn 1 \<and>
              rejection_loop maxv bn msk s2 = Some (fst r, advance s2 bn 1)"
            by (simp add: r)
          then show ?thesis by blast
        next
          case rej: False
          with body bn False None
          have "f maxv bn msk (advance s1 bn 1) = Some r"
            by (simp add: getRandomBytes_pos del: getRandomBytes.simps)
          from IH [OF this] bn same_entropy_advance [OF se, of bn 1]
          obtain d q where dq: "snd r = advance (advance s1 bn 1) d q"
            "rejection_loop maxv bn msk (advance s2 bn 1) = Some (fst r, advance (advance s2 bn 1) d q)"
            by blast
          have "rejection_loop maxv bn msk s2 = rejection_loop maxv bn msk (advance s2 bn 1)"
            using rej f2 p2 bn dr by (subst rejection_loop_step) simp_all
          with dq have "snd r = advance s1 (bn + d) (1 + q) \<and>
              rejection_loop maxv bn msk s2 = Some (fst r, advance s2 (bn + d) (1 + q))"
            by (simp add: advance_advance)
          then show ?thesis by blast
        qed
      qed
    qed
  qed
qed

lemma getRandomInt_sim:
  assumes "getRandomInt v s1 = Some (r, t1)" and "same_entropy s1 s2"
  shows "\<exists>d q. t1 = advance s1 d q \<and> getRandomInt v s2 = Some (r, advance s2 d q)"
proof (cases "\<exists>maxv. v = JInteger maxv \<and> 2 \<le> maxv")
  case True
  then obtain maxv where v: "v = JInteger maxv" and two: "2 \<le> maxv" by blast
  from assms(1) have "rejection_loop maxv (bytesNeeded maxv) (maskOf maxv) s1 = Some (r, t1)"
    using two by (simp add: v)
  from rejection_loop_sim [OF this] bytesNeeded_pos [OF two] assms(2)
  obtain d q where "t1 = advance s1 d q"
    "rejection_loop maxv (bytesNeeded maxv) (maskOf maxv) s2 = Some (r, advance s2 d q)"
    by fastforce
  then show ?thesis using two by (auto simp: v)
next
  case False
  then have "getRandomInt v s1 = Some (r, s1) \<and> getRandomInt v s2 = Some (r, s2)"
    using assms(1) by (cases v) (auto split: if_splits)
  with assms(1) have "t1 = advance s1 0 0 \<and> getRandomInt v s2 = Some (r, advance s2 0 0)"
    by (simp add: advance_0)
  then show ?thesis by blast
qed

lemma generate_loop_sim:
  "generate_loop n acc s1 = Some (r, t1) \<Longrightarrow> same_entropy s1 s2 \<Longrightarrow>
   \<exists>d q. t1 = advance s1 d q \<and> generate_loop n acc s2 = Some (r, advance s2 d q)"
proof (induction n arbitrary: acc s1 s2)
  case 0
  then have "t1 = advance s1 0 0 \<and> generate_loop 0 acc s2 = Some (r, advance s2 0 0)"
    by (simp add: advance_0)
  then show ?case by blast
next
  case (Suc n)
  let ?c = "JInteger (int (length CHARSET))"
  from Suc.prems(1) obtain x u where g: "getRandomInt ?c s1 = Some (x, u)"
    by (cases "getRandomInt ?c s1") (auto simp del: getRandomInt.simps)
  from getRandomInt_sim [OF g Suc.prems(2)] obtain d q where
    dq: "u = advance s1 d q" "getRandomInt ?c s2 = Some (x, advance s2 d q)" by blast
  show ?case
  proof (cases x)
    case (Inl e)
    with Suc.prems(1) g have "r = Inl e \<and> t1 = u"
      by (simp del: getRandomInt.simps)
    with dq Inl have "t1 = advance s1 d q \<and>
        generate_loop (Suc n) acc s2 = Some (r, advance s2 d q)"
      by (simp del: getRandomInt.simps)
    then show ?thesis by blast
  next
    case (Inr i)
    with Suc.prems(1) g have rest: "generate_loop n (acc @ charsetAt i) u = Some (r, t1)"
      by (simp del: getRandomInt.simps)
    have "same_entropy u (advance s2 d q)"
      unfolding dq(1) using Suc.prems(2) by (rule same_entropy_advance)
    from Suc.IH [OF rest this] obtain d' q' where
      "t1 = advance u d' q'"
      "generate_loop n (acc @ charsetAt i) (advance s2 d q) =
         Some (r, advance (advance s2 d q) d' q')" by blast
    with dq Inr have "t1 = advance s1 (d + d') (q + q') \<and>
        generate_loop (Suc n) acc s2 = Some (r, advance s2 (d + d') (q + q'))"
      by (simp add: advance_advance del: getRandomInt.simps)
    then show ?thesis by blast
  qed
qed

lemma generate_sim:
  assumes "generate v s1 = Some (r, t1)" and "same_entropy s1 s2"
  shows "\<exists>d q. t1 = advance s1 d q \<and> generate v s2 = Some (r, advance s2 d q)"
proof (cases "validateLength (defaulted v)")
  case (Inl e)
  with assms(1) have "t1 = advance s1 0 0 \<and> generate v s2 = Some (r, advance s2 0 0)"
    by (simp add: generate_def advance_0)
  then show ?thesis by blast
next
  case (Inr len)
  with assms(1) have "generate_loop (nat len) [] s1 = Some (r, t1)"
    by (simp add: generate_def)
  from generate_loop_sim [OF this assms(2)] Inr show ?thesis
    by (simp add: generate_def)
qed

text \<open>
  Claim C10. \<^verbatim>\<open>generate\<close> is a function of the length and of the entropy it is given:
  two runs on sources that supply the same entropy have the same outcome (the same ID,
  the same error, or neither returns), and consume the same number of bytes in the same
  number of requests.
\<close>

theorem generate_deterministic:
  assumes "same_entropy s1 s2"
  shows "map_option fst (generate v s1) = map_option fst (generate v s2) \<and>
         (\<forall>r t1. generate v s1 = Some (r, t1) \<longrightarrow>
            (\<exists>d q. t1 = advance s1 d q \<and> generate v s2 = Some (r, advance s2 d q)))"
proof -
  have fwd: "\<forall>r t1. generate v s1 = Some (r, t1) \<longrightarrow>
            (\<exists>d q. t1 = advance s1 d q \<and> generate v s2 = Some (r, advance s2 d q))"
    using generate_sim [OF _ assms] by blast
  have bwd: "\<forall>r t2. generate v s2 = Some (r, t2) \<longrightarrow>
            (\<exists>d q. t2 = advance s2 d q \<and> generate v s1 = Some (r, advance s1 d q))"
    using generate_sim [OF _ same_entropy_sym [OF assms]] by blast
  have "map_option fst (generate v s1) = map_option fst (generate v s2)"
  proof (cases "generate v s1")
    case None
    show ?thesis
    proof (cases "generate v s2")
      case None
      with \<open>generate v s1 = None\<close> show ?thesis by simp
    next
      case (Some y)
      with bwd \<open>generate v s1 = None\<close> show ?thesis by (cases y) auto
    qed
  next
    case (Some x)
    with fwd show ?thesis by (cases x) auto
  qed
  with fwd show ?thesis by blast
qed

lemma same_entropy_src0_srcShift: "same_entropy src0 srcShift"
  by (simp add: same_entropy_def src0_def srcShift_def)

theorem generate_deterministic_witness:
  "same_entropy src0 srcShift \<and>
   generate (JInteger 7) src0 = Some (Inr ''abcdefg'', advance src0 7 7) \<and>
   generate (JInteger 7) srcShift = Some (Inr ''abcdefg'', advance srcShift 7 7)"
proof -
  from generate_deterministic [OF same_entropy_src0_srcShift, of "JInteger 7"] generate_src0
  obtain d q where "advance src0 7 7 = advance src0 d q"
    "generate (JInteger 7) srcShift = Some (Inr ''abcdefg'', advance srcShift d q)"
    by blast
  moreover from this(1) have "d = 7 \<and> q = 7"
    by (simp add: advance_def src0_def)
  ultimately show ?thesis
    using same_entropy_src0_srcShift generate_src0 by simp
qed

subsection \<open>The collision model at the default length\<close>

lemma probability_7:
  "calculateCollisionProbability 7 100000 = 1 - exp (- (9999900000 / 7043229212416))"
  by (simp add: calculateCollisionProbability_def CHARSET_length Let_def)

lemma probability_7_bounds:
  "1415 / 1000000 \<le> calculateCollisionProbability 7 100000 \<and>
   calculateCollisionProbability 7 100000 < 1425 / 1000000"
proof -
  define x :: real where "x = 9999900000 / 7043229212416"
  have x0: "0 < 1 + x" by (simp add: x_def)
  have "1 + x \<le> exp x" by simp
  then have "inverse (exp x) \<le> inverse (1 + x)"
    using x0 by (rule le_imp_inverse_le)
  then have "exp (- x) \<le> 1 / (1 + x)"
    by (simp add: exp_minus inverse_eq_divide)
  moreover have "1 / (1 + x) \<le> 1 - 1415 / 1000000"
    by (simp add: x_def)
  ultimately have lo: "1415 / 1000000 \<le> 1 - exp (- x)" by linarith
  have "1 + (- x) \<le> exp (- x)" by (rule exp_ge_add_one_self)
  moreover have "x < 1425 / 1000000" by (simp add: x_def)
  ultimately have hi: "1 - exp (- x) < 1425 / 1000000" by linarith
  from lo hi show ?thesis by (simp add: probability_7 x_def)
qed

lemma safety_7: "getSafetyLevel (calculateCollisionProbability 7 100000) = Moderate"
  using probability_7_bounds by (simp add: getSafetyLevel_def COLLISION_THRESHOLDS_def)

lemma toFixed3_7: "toFixed3 (calculateCollisionProbability 7 100000 * 100) = ''0.142''"
proof -
  let ?p = "calculateCollisionProbability 7 100000"
  have pos: "0 \<le> ?p * 100" using probability_7_bounds by simp
  have "\<lfloor>?p * 100 * 1000 + 1 / 2\<rfloor> = 142"
    using probability_7_bounds by (intro floor_unique) simp_all
  then have "nat \<lfloor>\<bar>?p * 100\<bar> * 1000 + 1 / 2\<rfloor> = 142"
    using pos by (simp add: abs_of_nonneg)
  moreover have "\<not> ?p * 100 < 0" using pos by simp
  ultimately show ?thesis
    by (simp add: toFixed3_def Let_def digit_def del: dec.simps) (simp add: digit_def)
qed

lemma recommendation_7:
  "getRecommendation 7 Moderate =
     ''Moderate collision risk. Consider increasing length for large-scale use.''"
  by (simp add: getRecommendation_def)

lemma generateWithInfo_7:
  "generateWithInfo (JInteger 7) s =
     (case generate (JInteger 7) s of
        None \<Rightarrow> None
      | Some (Inl e, s') \<Rightarrow> Some (Inl e, s')
      | Some (Inr ident, s') \<Rightarrow>
          Some (Inr \<lparr>id' = ident, safety = Moderate, collisionProbability = ''0.142%'',
                      recommendation =
                        ''Moderate collision risk. Consider increasing length for large-scale use.''\<rparr>,
                s'))"
  by (simp add: generateWithInfo_def MIN_LENGTH_def MAX_LENGTH_def safety_7 toFixed3_7
      recommendation_7 Let_def split: option.split sum.split)

text \<open>From length 8 on the classification is safe; length 7 is the only moderate one.\<close>

lemma safety_from_8:
  assumes "8 \<le> len"
  shows "getSafetyLevel (calculateCollisionProbability len 100000) = Safe"
proof -
  define x :: real where "x = 9999900000 / (2 * 62 ^ nat len)"
  have "(62::real) ^ 8 \<le> 62 ^ nat len"
    using assms by (intro power_increasing) simp_all
  then have "9999900000 / (2 * 62 ^ nat len) \<le> 9999900000 / (2 * (62::real) ^ 8)"
    by (intro divide_left_mono) simp_all
  then have "x \<le> 9999900000 / (2 * 62 ^ 8)" by (simp only: x_def)
  moreover have "9999900000 / (2 * (62::real) ^ 8) < 1 / 1000" by simp
  ultimately have xs: "x < 1 / 1000" by (rule le_less_trans)
  have "1 + (- x) \<le> exp (- x)" by (rule exp_ge_add_one_self)
  with xs have "1 - exp (- x) < 1 / 1000" by linarith
  moreover have "calculateCollisionProbability len 100000 = 1 - exp (- x)"
    by (simp add: calculateCollisionProbability_def CHARSET_length Let_def x_def)
  ultimately show ?thesis
    by (simp add: getSafetyLevel_def COLLISION_THRESHOLDS_def)
qed

lemma recommendation_8:
  "getRecommendation 8 Safe =
     ''Safe for up to 100k IDs. Total possible combinations: 2.18e+14''"
  by (simp add: getRecommendation_def CHARSET_length toExponential2_def digit_def Let_def)

text \<open>
  Claim C2 (the code departs from it). At length 7 the formula gives a probability
  between 0.001415 and 0.001425, which is not below the threshold 0.001: the result is
  classified moderate, its percentage prints as 0.142%, and the recommendation is the
  moderate one, which holds no combination count.
\<close>

theorem generateWithInfo_7_moderate:
  "calculateCollisionProbability 7 100000 = 1 - exp (- (100000 * 99999) / (2 * 62 ^ 7)) \<and>
   1415 / 1000000 \<le> calculateCollisionProbability 7 100000 \<and>
   calculateCollisionProbability 7 100000 < 1425 / 1000000 \<and>
   generateWithInfo (JInteger 7) src0 =
     Some (Inr \<lparr>id' = ''abcdefg'', safety = Moderate, collisionProbability = ''0.142%'',
                 recommendation =
                   ''Moderate collision risk. Consider increasing length for large-scale use.''\<rparr>,
           advance src0 7 7)"
proof -
  have "calculateCollisionProbability 7 100000 = 1 - exp (- (100000 * 99999) / (2 * 62 ^ 7))"
    by (simp add: probability_7)
  then show ?thesis
    using probability_7_bounds by (simp add: generateWithInfo_7 generate_src0)
qed

subsection \<open>The sampler against the specified algorithm\<close>

lemma spec_pack_foldl:
  "foldl (\<lambda>a (b :: 8 word). a * 256 + uint b) (int a) bytes =
   int (foldl (\<lambda>a b. a * 256 + unat b) a bytes)"
proof (induction bytes arbitrary: a)
  case Nil
  show ?case by simp
next
  case (Cons b bytes)
  have "int a * 256 + uint b = int (a * 256 + unat b)" by simp
  then show ?case using Cons.IH [of "a * 256 + unat b"] by simp
qed

lemma spec_pack_be_nat: "spec_pack bytes = int (be_nat bytes)"
  using spec_pack_foldl [of 0 bytes] by (simp add: spec_pack_def be_nat_def)

lemma spec_masked: "spec_pack bytes AND spec_mask k = int (be_nat bytes mod 2 ^ k)"
proof -
  have "spec_pack bytes AND spec_mask k = take_bit k (int (be_nat bytes))"
    by (simp add: spec_pack_be_nat spec_mask_def take_bit_eq_mask mask_eq_exp_minus_1)
  also have "\<dots> = int (be_nat bytes mod 2 ^ k)"
    by (simp add: take_bit_eq_mod zmod_int)
  finally show ?thesis .
qed

lemma masked_agrees:
  assumes "2 \<le> maxv" and "maxv \<le> 2 ^ 31"
  shows "masked bytes (maskOf maxv) = spec_pack bytes AND spec_mask (bitsNeeded maxv)"
  using masked_small [OF assms(1) bitsNeeded_le_31 [OF assms]] by (simp add: spec_masked)

lemma rejection_loop_to_spec:
  assumes agree: "\<And>bytes. masked bytes msk = spec_pack bytes AND smsk"
    and run: "rejection_loop maxv bn msk s = Some r"
  shows "spec_loop maxv bn smsk s = Some r"
proof -
  have "maxv' = maxv \<and> bn' = bn \<and> msk' = msk \<longrightarrow> spec_loop maxv bn smsk s' = Some r'"
    if "rejection_loop maxv' bn' msk' s' = Some r'" for maxv' bn' msk' s' r'
  proof (rule rejection_loop.raw_induct [where P = "\<lambda>maxv' bn' msk' s' r'.
      maxv' = maxv \<and> bn' = bn \<and> msk' = msk \<longrightarrow> spec_loop maxv bn smsk s' = Some r'", OF _ that])
    fix f :: "int \<Rightarrow> nat \<Rightarrow> int \<Rightarrow> source \<Rightarrow> ((error + int) \<times> source) option"
    fix mx b m and t :: source and y :: "(error + int) \<times> source"
    assume IH: "\<And>mx b m t y. f mx b m t = Some y \<Longrightarrow>
      mx = maxv \<and> b = bn \<and> m = msk \<longrightarrow> spec_loop maxv bn smsk t = Some y"
    assume body: "(case getRandomBytes (JInteger (int b)) t of
        (Inl e, s') \<Rightarrow> Some (Inl e, s')
      | (Inr bytes, s') \<Rightarrow>
          (let num = masked bytes m
           in if num < mx then Some (Inr num, s') else f mx b m s')) = Some y"
    show "mx = maxv \<and> b = bn \<and> m = msk \<longrightarrow> spec_loop maxv bn smsk t = Some y"
    proof
      assume eq: "mx = maxv \<and> b = bn \<and> m = msk"
      show "spec_loop maxv bn smsk t = Some y"
        using body IH eq
        by (subst spec_loop.simps)
          (auto simp: agree Let_def simp del: getRandomBytes.simps
            split: prod.splits sum.splits if_splits)
    qed
  qed
  from this [OF run] show ?thesis by simp
qed

lemma spec_loop_to_rejection:
  assumes agree: "\<And>bytes. masked bytes msk = spec_pack bytes AND smsk"
    and run: "spec_loop maxv bn smsk s = Some r"
  shows "rejection_loop maxv bn msk s = Some r"
proof -
  have "maxv' = maxv \<and> bn' = bn \<and> smsk' = smsk \<longrightarrow> rejection_loop maxv bn msk s' = Some r'"
    if "spec_loop maxv' bn' smsk' s' = Some r'" for maxv' bn' smsk' s' r'
  proof (rule spec_loop.raw_induct [where P = "\<lambda>maxv' bn' smsk' s' r'.
      maxv' = maxv \<and> bn' = bn \<and> smsk' = smsk \<longrightarrow> rejection_loop maxv bn msk s' = Some r'", OF _ that])
    fix f :: "int \<Rightarrow> nat \<Rightarrow> int \<Rightarrow> source \<Rightarrow> ((error + int) \<times> source) option"
    fix mx b m and t :: source and y :: "(error + int) \<times> source"
    assume IH: "\<And>mx b m t y. f mx b m t = Some y \<Longrightarrow>
      mx = maxv \<and> b = bn \<and> m = smsk \<longrightarrow> rejection_loop maxv bn msk t = Some y"
    assume body: "(case getRandomBytes (JInteger (int b)) t of
        (Inl e, s') \<Rightarrow> Some (Inl e, s')
      | (Inr bytes, s') \<Rightarrow>
          (let num = spec_pack bytes AND m
           in if num < mx then Some (Inr num, s') else f mx b m s')) = Some y"
    show "mx = maxv \<and> b = bn \<and> m = smsk \<longrightarrow> rejection_loop maxv bn msk t = Some y"
    proof
      assume eq: "mx = maxv \<and> b = bn \<and> m = smsk"
      show "rejection_loop maxv bn msk t = Some y"
        using body IH eq
        by (subst rejection_loop.simps)
          (auto simp: agree Let_def simp del: getRandomBytes.simps
            split: prod.splits sum.splits if_splits)
    qed
  qed
  from this [OF run] show ?thesis by simp
qed

lemma loops_agree:
  assumes "\<And>bytes. masked bytes msk = spec_pack bytes AND smsk"
  shows "rejection_loop maxv bn msk s = spec_loop maxv bn smsk s"
proof (cases "rejection_loop maxv bn msk s")
  case None
  show ?thesis
  proof (cases "spec_loop maxv bn smsk s")
    case None
    with \<open>rejection_loop maxv bn msk s = None\<close> show ?thesis by simp
  next
    case (Some r)
    from spec_loop_to_rejection [OF assms Some] \<open>rejection_loop maxv bn msk s = None\<close>
    show ?thesis by simp
  qed
next
  case (Some r)
  from rejection_loop_to_spec [OF assms Some] Some show ?thesis by simp
qed

text \<open>Up to \<open>2 ^ 31\<close> the code is the specified algorithm.\<close>

lemma getRandomInt_refines_spec:
  assumes "maxv \<le> 2 ^ 31"
  shows "getRandomInt (JInteger maxv) s = spec_getRandomInt (JInteger maxv) s"
proof (cases "2 \<le> maxv")
  case True
  have "rejection_loop maxv (bytesNeeded maxv) (maskOf maxv) s =
        spec_loop maxv (bytesNeeded maxv) (spec_mask (bitsNeeded maxv)) s"
    by (rule loops_agree) (rule masked_agrees [OF True assms])
  with True show ?thesis by simp
next
  case False
  then show ?thesis by simp
qed

lemma getRandomBytes_srcFF:
  "getRandomBytes (JInteger 4) srcFF = (Inr [255, 255, 255, 255], advance srcFF 4 1)"
  by (simp add: srcFF_def facility_def advance_def upt_rec)

text \<open>
  Claim C5 (the code departs from it). At the bound \<open>2 ^ 32\<close> and four bytes 255 the
  specified algorithm masks with \<open>2 ^ 32 - 1\<close> and returns 4294967295; the code's
  32-bit shift makes its mask 0 and it returns 0.
\<close>

theorem getRandomInt_departs_from_spec:
  "spec_getRandomInt (JInteger 4294967296) srcFF = Some (Inr 4294967295, advance srcFF 4 1) \<and>
   getRandomInt (JInteger 4294967296) srcFF = Some (Inr 0, advance srcFF 4 1) \<and>
   spec_mask (bitsNeeded 4294967296) = 4294967295 \<and> maskOf 4294967296 = 0"
proof -
  have b: "bitsNeeded 4294967296 = 32" by (rule bitsNeeded_32) simp_all
  have n: "bytesNeeded 4294967296 = 4" by (simp add: bytesNeeded_div b)
  have m: "maskOf 4294967296 = 0" by (simp add: maskOf_def b js_shl_def)
  have sm: "spec_mask (bitsNeeded 4294967296) = 4294967295" by (simp add: spec_mask_def b)
  have sp: "spec_pack [255, 255, 255, 255] = 4294967295" by (simp add: spec_pack_def)
  have "spec_loop 4294967296 4 4294967295 srcFF = Some (Inr 4294967295, advance srcFF 4 1)"
    using getRandomBytes_srcFF
    by (subst spec_loop.simps) (simp add: sp del: getRandomBytes.simps)
  then have 1: "spec_getRandomInt (JInteger 4294967296) srcFF =
      Some (Inr 4294967295, advance srcFF 4 1)"
    by (simp add: n sm)
  have "rejection_loop 4294967296 4 0 srcFF = Some (Inr 0, advance srcFF 4 1)"
    using getRandomBytes_srcFF
    by (subst rejection_loop.simps) (simp add: masked_def del: getRandomBytes.simps)
  then have 2: "getRandomInt (JInteger 4294967296) srcFF = Some (Inr 0, advance srcFF 4 1)"
    by (simp add: n m)
  from 1 2 sm m show ?thesis by simp
qed

subsection \<open>The configuration snapshot\<close>

lemma config_ok_init: "config_ok (module_heap, [])"
  by (simp add: config_ok_def module_heap_def)

lemma mutate_frozen: "frozen (h ! a) \<Longrightarrow> snd (mutate strict a m h) = h"
  by (simp add: mutate_def)

lemma config_ok_step:
  assumes "config_ok st"
  shows "config_ok (client_step st op)"
proof (cases st)
  case (Pair h refs)
  with assms have ok: "h \<noteq> []" "hd h = CONSTANTS"
    "list_all (\<lambda>a. 0 < a \<and> a < length h \<and> h ! a = \<lparr>props = props CONSTANTS, frozen = True\<rparr>) refs"
    by (simp_all add: config_ok_def)
  from ok(1) obtain c rest where h: "h = c # rest" by (cases h) auto
  with ok(2) have c: "c = CONSTANTS" by simp
  show ?thesis
  proof (cases op)
    case CallGetConfig
    have "list_all (\<lambda>a. 0 < a \<and> a < length (h @ [\<lparr>props = props c, frozen = True\<rparr>]) \<and>
        (h @ [\<lparr>props = props c, frozen = True\<rparr>]) ! a = \<lparr>props = props CONSTANTS, frozen = True\<rparr>) refs"
      using ok(3) by (auto simp: list_all_iff nth_append)
    then show ?thesis
      using ok(1,2) by (simp add: Pair CallGetConfig getConfig_def h c config_ok_def nth_append)
  next
    case (Attempt strict i m)
    show ?thesis
    proof (cases "i < length refs")
      case True
      then have "refs ! i \<in> set refs" by simp
      with ok(3) have "frozen (h ! (refs ! i))" by (auto simp: list_all_iff)
      then have "snd (mutate strict (refs ! i) m h) = h" by (rule mutate_frozen)
      with assms True show ?thesis by (simp add: Pair Attempt)
    next
      case False
      with assms show ?thesis by (simp add: Pair Attempt)
    qed
  qed
qed

lemma config_ok_run: "config_ok (client_run ops)"
  unfolding client_run_def
  by (induction ops rule: rev_induct) (simp_all add: config_ok_init config_ok_step)

text \<open>
  Claim C7. Whatever a caller has done before (calls of \<^verbatim>\<open>getConfig\<close> and mutation
  attempts on the snapshots it holds), a call of \<^verbatim>\<open>getConfig\<close> returns a frozen snapshot
  with defaultLength 7, minLength 7, maxLength 32 and the charset, every snapshot obtained
  earlier still shows those same values, \<^verbatim>\<open>getCharset\<close> returns the charset, and a
  mutation attempt on a snapshot leaves the whole store as it was (it is ignored, or it
  fails with a TypeError).
\<close>

theorem getConfig_snapshots_immutable:
  "(case client_run ops of (h, refs) \<Rightarrow>
      (case getConfig h of (a, h') \<Rightarrow>
         snapshot h' a = [(''DEFAULT_LENGTH'', PNum 7), (''MIN_LENGTH'', PNum 7),
                          (''MAX_LENGTH'', PNum 32), (''CHARSET'', PStr CHARSET)] \<and>
         frozen (h' ! a) \<and> a \<notin> set refs \<and>
         (\<forall>b\<in>set refs. snapshot h' b = snapshot h' a)) \<and>
      getCharset h = Some (PStr CHARSET) \<and>
      (\<forall>b\<in>set refs. \<forall>strict m. snd (mutate strict b m h) = h \<and>
          (fst (mutate strict b m h) = None \<or> fst (mutate strict b m h) = Some TypeError)))"
proof (cases "client_run ops")
  case (Pair h refs)
  from config_ok_run [of ops] Pair have ok: "h \<noteq> []" "hd h = CONSTANTS"
    "list_all (\<lambda>a. 0 < a \<and> a < length h \<and> h ! a = \<lparr>props = props CONSTANTS, frozen = True\<rparr>) refs"
    by (simp_all add: config_ok_def)
  from ok(1) obtain c rest where h: "h = c # rest" by (cases h) auto
  with ok(2) have c: "c = CONSTANTS" by simp
  have vals: "props CONSTANTS = [(''DEFAULT_LENGTH'', PNum 7), (''MIN_LENGTH'', PNum 7),
                          (''MAX_LENGTH'', PNum 32), (''CHARSET'', PStr CHARSET)]"
    by (simp add: CONSTANTS_def DEFAULT_LENGTH_def MIN_LENGTH_def MAX_LENGTH_def)
  have refs: "b < length h \<and> h ! b = \<lparr>props = props CONSTANTS, frozen = True\<rparr>"
    if "b \<in> set refs" for b
    using ok(3) that by (auto simp: list_all_iff)
  have g: "getConfig h = (length h, h @ [\<lparr>props = props CONSTANTS, frozen = True\<rparr>])"
    by (simp add: getConfig_def h c)
  have 1: "snapshot (h @ [\<lparr>props = props CONSTANTS, frozen = True\<rparr>]) (length h) =
      [(''DEFAULT_LENGTH'', PNum 7), (''MIN_LENGTH'', PNum 7),
       (''MAX_LENGTH'', PNum 32), (''CHARSET'', PStr CHARSET)]"
    by (simp add: snapshot_def vals)
  have 2: "length h \<notin> set refs" using refs by auto
  have 3: "\<forall>b\<in>set refs. snapshot (h @ [\<lparr>props = props CONSTANTS, frozen = True\<rparr>]) b =
      snapshot (h @ [\<lparr>props = props CONSTANTS, frozen = True\<rparr>]) (length h)"
    using refs by (auto simp: snapshot_def nth_append)
  have 4: "getCharset h = Some (PStr CHARSET)"
    by (simp add: getCharset_def h c CONSTANTS_def)
  have 5: "\<forall>b\<in>set refs. \<forall>strict m. snd (mutate strict b m h) = h \<and>
          (fst (mutate strict b m h) = None \<or> fst (mutate strict b m h) = Some TypeError)"
    using refs by (auto simp: mutate_def)
  from 1 2 3 4 5 show ?thesis by (simp add: Pair g)
qed

lemma client_run_attack:
  "client_run attack =
     ([CONSTANTS, \<lparr>props = props CONSTANTS, frozen = True\<rparr>,
       \<lparr>props = props CONSTANTS, frozen = True\<rparr>], [1, 2])"
  by (simp add: client_run_def attack_def module_heap_def getConfig_def mutate_def)

theorem getConfig_snapshots_immutable_witness:
  "client_run attack =
     ([CONSTANTS, \<lparr>props = props CONSTANTS, frozen = True\<rparr>,
       \<lparr>props = props CONSTANTS, frozen = True\<rparr>], [1, 2]) \<and>
   snapshot (fst (client_run attack)) 1 = snapshot (fst (client_run attack)) 2 \<and>
   snapshot (fst (client_run attack)) 2 =
     [(''DEFAULT_LENGTH'', PNum 7), (''MIN_LENGTH'', PNum 7),
      (''MAX_LENGTH'', PNum 32), (''CHARSET'', PStr CHARSET)] \<and>
   getCharset (fst (client_run attack)) = Some (PStr CHARSET) \<and>
   mutate True 1 (Assign ''CHARSET'' (PStr ''x'')) (fst (client_run attack)) =
     (Some TypeError, fst (client_run attack)) \<and>
   mutate False 1 (Assign ''CHARSET'' (PStr ''x'')) (fst (client_run attack)) =
     (None, fst (client_run attack)) \<and>
   mutate False 0 (Assign ''CHARSET'' (PStr ''x'')) module_heap \<noteq> (None, module_heap)"
proof -
  note T = getConfig_snapshots_immutable [of attack]
  have 1: "getCharset (fst (client_run attack)) = Some (PStr CHARSET)"
    using T by (simp add: client_run_attack)
  have 2: "snapshot (fst (client_run attack)) 1 = snapshot (fst (client_run attack)) 2"
    by (simp add: client_run_attack snapshot_def)
  have 3: "snapshot (fst (client_run attack)) 2 =
     [(''DEFAULT_LENGTH'', PNum 7), (''MIN_LENGTH'', PNum 7),
      (''MAX_LENGTH'', PNum 32), (''CHARSET'', PStr CHARSET)]"
    by (simp add: client_run_attack snapshot_def CONSTANTS_def DEFAULT_LENGTH_def MIN_LENGTH_def
        MAX_LENGTH_def)
  have 4: "mutate True 1 (Assign ''CHARSET'' (PStr ''x'')) (fst (client_run attack)) =
     (Some TypeError, fst (client_run attack))"
    by (simp add: client_run_attack mutate_def)
  have 5: "mutate False 1 (Assign ''CHARSET'' (PStr ''x'')) (fst (client_run attack)) =
     (None, fst (client_run attack))"
    by (simp add: client_run_attack mutate_def)
  have 6: "mutate False 0 (Assign ''CHARSET'' (PStr ''x'')) module_heap \<noteq> (None, module_heap)"
    by (simp add: mutate_def module_heap_def CONSTANTS_def CHARSET_def)
  from 1 2 3 4 5 6 client_run_attack show ?thesis by simp
qed

end
